theory Spec2Isabelle
  imports Complex_Main "HOL-Library.Word" "HOL-Library.AList"
begin

section \<open>Editor state (lib/editor/EditorState.ts)\<close>

text \<open>
  JavaScript numbers are IEEE doubles.  They are modelled as \<open>real\<close>s where the code
  computes with fractions (transforms, quality knobs, filter parameters) and as integers
  where they are indices, timestamps or byte values.  A \<open>Record<string, any>\<close> parameter
  bag is an association list from the key to a value.  The interfaces share the field names
  \<open>id\<close>, \<open>type\<close> and \<open>params\<close>; the records prefix them (\<open>layer_id\<close>, \<open>effect_type\<close>, ...).
\<close>

datatype jsvalue = JNum real | JStr string | JBool bool

type_synonym params = "(string \<times> jsvalue) list"

record TransformMatrix =
  scaleX :: real
  scaleY :: real
  rotation :: real
  translateX :: real
  translateY :: real

definition DEFAULT_TRANSFORM :: TransformMatrix where
  "DEFAULT_TRANSFORM =
     \<lparr>scaleX = 1, scaleY = 1, rotation = 0, translateX = 0, translateY = 0\<rparr>"

datatype LayerType = background | border | subject | sticker | watermark

record Layer =
  layer_id :: string
  layer_type :: LayerType
  visible :: bool
  locked :: bool
  transform :: TransformMatrix
  layer_params :: params

datatype EffectType = color_effect | blur_effect | shadow_effect | filter_effect | border_effect

record EffectNode =
  effect_id :: string
  effect_type :: EffectType
  effect_params :: params
  enabled :: bool

datatype ProcessingMode =
  remove_only | remove_color | remove_blur | remove_shadow | remove_border | custom

record CanvasSize =
  width :: real
  height :: real

record EditorState =
  state_id :: string
  originalImageKey :: string
  alphaMaskKey :: "string option"
  canvasSize :: CanvasSize
  layers :: "Layer list"
  effects :: "EffectNode list"
  processingMode :: ProcessingMode
  previewQuality :: real
  exportQuality :: real

definition createDefaultEditorState :: "string \<Rightarrow> string \<Rightarrow> EditorState" where
  "createDefaultEditorState ident imageKey =
     \<lparr>state_id = ident,
      originalImageKey = imageKey,
      alphaMaskKey = None,
      canvasSize = \<lparr>width = 0, height = 0\<rparr>,
      layers =
        [\<lparr>layer_id = ''bg'', layer_type = background, visible = True, locked = False,
          transform = DEFAULT_TRANSFORM, layer_params = [(''color'', JStr ''#ffffff'')]\<rparr>,
         \<lparr>layer_id = ''border'', layer_type = border, visible = False, locked = False,
          transform = DEFAULT_TRANSFORM, layer_params = []\<rparr>,
         \<lparr>layer_id = ''subject'', layer_type = subject, visible = True, locked = False,
          transform = DEFAULT_TRANSFORM, layer_params = []\<rparr>],
      effects = [],
      processingMode = remove_only,
      previewQuality = 800,
      exportQuality = 1\<rparr>"

text \<open>\<open>toggleEffect\<close> and \<open>removeEffect\<close> of the auto processor: both return a new state.\<close>

definition toggleEffect :: "EditorState \<Rightarrow> string \<Rightarrow> EditorState" where
  "toggleEffect state effectId =
     state\<lparr>effects :=
       map (\<lambda>e. if effect_id e = effectId then e\<lparr>enabled := \<not> enabled e\<rparr> else e)
         (effects state)\<rparr>"

definition removeEffect :: "EditorState \<Rightarrow> string \<Rightarrow> EditorState" where
  "removeEffect state effectId =
     state\<lparr>effects := filter (\<lambda>e. effect_id e \<noteq> effectId) (effects state)\<rparr>"

section \<open>Command history (lib/editor/CommandHistory.ts)\<close>

datatype CommandType =
  SET_EFFECT | ADD_EFFECT | REMOVE_EFFECT | TOGGLE_EFFECT | SET_LAYER
  | ADD_LAYER | REMOVE_LAYER | TOGGLE_LAYER | SET_BACKGROUND | SET_TRANSFORM

text \<open>
  \<open>prevValue\<close> and \<open>newValue\<close> are typed \<open>any\<close>.  Each branch of \<open>applyCommand\<close> stores
  the value in a typed field (\<open>params\<close>, \<open>enabled\<close>, \<open>visible\<close>, \<open>transform\<close>) or casts it
  (\<open>value as EffectNode\<close>), so \<open>any\<close> is the sum of those field types.  The projections
  \<open>asParams\<close>, \<open>asEffect\<close>, \<open>asBool\<close>, \<open>asTransform\<close> are the casts; on a value of
  another kind they are left unspecified, as TypeScript's types leave it.
\<close>

datatype any =
  AParams params | AEffect EffectNode | ABool bool | ATransform TransformMatrix | AUndefined

definition asParams :: "any \<Rightarrow> params" where
  "asParams v = (case v of AParams p \<Rightarrow> p)"

definition asEffect :: "any \<Rightarrow> EffectNode" where
  "asEffect v = (case v of AEffect e \<Rightarrow> e)"

definition asBool :: "any \<Rightarrow> bool" where
  "asBool v = (case v of ABool b \<Rightarrow> b)"

definition asTransform :: "any \<Rightarrow> TransformMatrix" where
  "asTransform v = (case v of ATransform t \<Rightarrow> t)"

record Payload =
  targetId :: string
  prevValue :: any
  newValue :: any

record Command =
  ctype :: CommandType
  timestamp :: int
  payload :: Payload

definition applyCommand :: "EditorState \<Rightarrow> Command \<Rightarrow> bool \<Rightarrow> EditorState" where
  "applyCommand state command reverse =
     (let val = (if reverse then prevValue (payload command) else newValue (payload command));
          tid = targetId (payload command)
      in case ctype command of
           SET_EFFECT \<Rightarrow>
             state\<lparr>effects :=
               map (\<lambda>e. if effect_id e = tid then e\<lparr>effect_params := asParams val\<rparr> else e)
                 (effects state)\<rparr>
         | ADD_EFFECT \<Rightarrow>
             (if reverse
              then state\<lparr>effects := filter (\<lambda>e. effect_id e \<noteq> tid) (effects state)\<rparr>
              else state\<lparr>effects := effects state @ [asEffect val]\<rparr>)
         | REMOVE_EFFECT \<Rightarrow>
             (if reverse
              then state\<lparr>effects := effects state @ [asEffect val]\<rparr>
              else state\<lparr>effects := filter (\<lambda>e. effect_id e \<noteq> tid) (effects state)\<rparr>)
         | TOGGLE_EFFECT \<Rightarrow>
             state\<lparr>effects :=
               map (\<lambda>e. if effect_id e = tid then e\<lparr>enabled := asBool val\<rparr> else e)
                 (effects state)\<rparr>
         | SET_LAYER \<Rightarrow>
             state\<lparr>layers :=
               map (\<lambda>l. if layer_id l = tid then l\<lparr>layer_params := asParams val\<rparr> else l)
                 (layers state)\<rparr>
         | TOGGLE_LAYER \<Rightarrow>
             state\<lparr>layers :=
               map (\<lambda>l. if layer_id l = tid then l\<lparr>visible := asBool val\<rparr> else l)
                 (layers state)\<rparr>
         | SET_TRANSFORM \<Rightarrow>
             state\<lparr>layers :=
               map (\<lambda>l. if layer_id l = tid then l\<lparr>transform := asTransform val\<rparr> else l)
                 (layers state)\<rparr>
         | _ \<Rightarrow> state)"

text \<open>
  The history object: the command log and the cursor.  \<open>maxHistory\<close> is a private field
  initialised to 50 and never assigned again.  The callbacks \<open>applyFn\<close> act on the
  caller's state, which is threaded through as the second component.  \<open>undo\<close> and \<open>redo\<close>
  index the log at the cursor; the cursor of a history reached through the methods below is
  always inside the log (\<open>cursor_ok\<close>).
\<close>

record CommandHistory =
  commands :: "Command list"
  currentIndex :: int

definition maxHistory :: nat where
  "maxHistory = 50"

definition new_history :: CommandHistory where
  "new_history = \<lparr>commands = [], currentIndex = -1\<rparr>"

text \<open>\<open>Array.prototype.slice(0, e)\<close>: a negative end counts from the back.\<close>

definition slice0 :: "'a list \<Rightarrow> int \<Rightarrow> 'a list" where
  "slice0 xs e = (if e < 0 then take (nat (int (length xs) + e)) xs else take (nat e) xs)"

definition canUndo :: "CommandHistory \<Rightarrow> bool" where
  "canUndo h \<longleftrightarrow> currentIndex h \<ge> 0"

definition canRedo :: "CommandHistory \<Rightarrow> bool" where
  "canRedo h \<longleftrightarrow> currentIndex h < int (length (commands h)) - 1"

definition execute ::
  "Command \<Rightarrow> (Command \<Rightarrow> 's \<Rightarrow> 's) \<Rightarrow> CommandHistory \<times> 's \<Rightarrow> CommandHistory \<times> 's" where
  "execute command applyFn hs =
     (let h = fst hs;
          cmds1 = (if currentIndex h < int (length (commands h)) - 1
                   then slice0 (commands h) (currentIndex h + 1) else commands h);
          cmds2 = cmds1 @ [command];
          idx2 = currentIndex h + 1;
          trim = (length cmds2 > maxHistory);
          cmds3 = (if trim then tl cmds2 else cmds2);
          idx3 = (if trim then idx2 - 1 else idx2)
      in (h\<lparr>commands := cmds3, currentIndex := idx3\<rparr>, applyFn command (snd hs)))"

definition undo ::
  "(Command \<Rightarrow> bool \<Rightarrow> 's \<Rightarrow> 's) \<Rightarrow> CommandHistory \<times> 's \<Rightarrow> bool \<times> CommandHistory \<times> 's" where
  "undo applyFn hs =
     (let h = fst hs in
      if \<not> canUndo h then (False, hs)
      else let command = commands h ! nat (currentIndex h)
           in (True, h\<lparr>currentIndex := currentIndex h - 1\<rparr>, applyFn command True (snd hs)))"

definition redo ::
  "(Command \<Rightarrow> bool \<Rightarrow> 's \<Rightarrow> 's) \<Rightarrow> CommandHistory \<times> 's \<Rightarrow> bool \<times> CommandHistory \<times> 's" where
  "redo applyFn hs =
     (let h = fst hs in
      if \<not> canRedo h then (False, hs)
      else let h1 = h\<lparr>currentIndex := currentIndex h + 1\<rparr>;
               command = commands h1 ! nat (currentIndex h1)
           in (True, h1, applyFn command False (snd hs)))"

definition clear :: "CommandHistory \<Rightarrow> CommandHistory" where
  "clear h = h\<lparr>commands := [], currentIndex := -1\<rparr>"

text \<open>
  A history is only ever reached from the empty one by its public methods.  The calls are
  the events below; \<open>run_history\<close> replays them, oldest first.
\<close>

datatype history_call = Execute Command | Undo | Redo | Clear

fun history_step ::
  "(Command \<Rightarrow> bool \<Rightarrow> 's \<Rightarrow> 's) \<Rightarrow> history_call \<Rightarrow> CommandHistory \<times> 's \<Rightarrow> CommandHistory \<times> 's" where
  "history_step applyFn (Execute c) hs = execute c (\<lambda>cmd. applyFn cmd False) hs"
| "history_step applyFn Undo hs = snd (undo applyFn hs)"
| "history_step applyFn Redo hs = snd (redo applyFn hs)"
| "history_step applyFn Clear hs = (clear (fst hs), snd hs)"

definition run_history ::
  "(Command \<Rightarrow> bool \<Rightarrow> 's \<Rightarrow> 's) \<Rightarrow> history_call list \<Rightarrow> 's \<Rightarrow> CommandHistory \<times> 's" where
  "run_history applyFn calls s0 = foldl (\<lambda>hs c. history_step applyFn c hs) (new_history, s0) calls"

definition cursor_ok :: "CommandHistory \<Rightarrow> bool" where
  "cursor_ok h \<longleftrightarrow> -1 \<le> currentIndex h \<and> currentIndex h < int (length (commands h))"

text \<open>The editor's callback: \<open>(cmd, reverse) => state = applyCommand(state, cmd, reverse)\<close>.\<close>

definition applyFn_editor :: "Command \<Rightarrow> bool \<Rightarrow> EditorState \<Rightarrow> EditorState" where
  "applyFn_editor cmd reverse st = applyCommand st cmd reverse"

definition ignored_type :: "CommandType \<Rightarrow> bool" where
  "ignored_type t \<longleftrightarrow> t = ADD_LAYER \<or> t = REMOVE_LAYER \<or> t = SET_BACKGROUND"

fun executes_only_ignored :: "history_call \<Rightarrow> bool" where
  "executes_only_ignored (Execute c) = ignored_type (ctype c)"
| "executes_only_ignored _ = True"

text \<open>Concrete values used to evaluate the definitions.\<close>

definition fx1 :: EffectNode where
  "fx1 = \<lparr>effect_id = ''fx1'', effect_type = blur_effect,
           effect_params = [(''radius'', JNum 0.03), (''type'', JStr ''gaussian'')], enabled = True\<rparr>"

definition fx2 :: EffectNode where
  "fx2 = \<lparr>effect_id = ''fx2'', effect_type = filter_effect,
           effect_params =
             [(''brightness'', JNum 0), (''contrast'', JNum 0.2), (''saturation'', JNum (-1)),
              (''temperature'', JNum 0), (''intensity'', JNum 1)],
           enabled = False\<rparr>"

definition state0 :: EditorState where
  "state0 = createDefaultEditorState ''s'' ''img''"

text \<open>\<open>createCommand\<close>; the first argument is the value of \<open>Date.now()\<close>.\<close>

definition createCommand :: "int \<Rightarrow> CommandType \<Rightarrow> string \<Rightarrow> any \<Rightarrow> any \<Rightarrow> Command" where
  "createCommand now t tid prev new =
     \<lparr>ctype = t, timestamp = now,
      payload = \<lparr>targetId = tid, prevValue = prev, newValue = new\<rparr>\<rparr>"

definition add_fx1 :: Command where
  "add_fx1 = createCommand 0 ADD_EFFECT ''fx1'' AUndefined (AEffect fx1)"

definition add_layer_cmd :: Command where
  "add_layer_cmd = createCommand 0 ADD_LAYER ''l9'' AUndefined AUndefined"


definition toggle_fx1 :: Command where
  "toggle_fx1 = createCommand 0 TOGGLE_EFFECT ''fx1'' (ABool True) (ABool False)"


section \<open>Pixel algorithms (lib/imageProcessing.ts)\<close>

text \<open>
  The functions read an \<open>ImageData.data\<close> array (\<open>Uint8ClampedArray\<close>, four bytes per
  pixel in the order R, G, B, A), change it in place and hand it back to the canvas.  The
  model takes the array as a list of bytes and returns the array that is put back;
  decoding the file, the canvas blur filter and the encoding of the result are the
  browser's.  The logging counter \<open>removedPixels\<close> is left out.

  A JavaScript number is an integer here, or \<open>NaN\<close> (\<open>None\<close>): reading past the end of
  a typed array gives \<open>undefined\<close>, which is \<open>NaN\<close> in arithmetic, and every comparison
  with \<open>NaN\<close> is false.
\<close>

type_synonym byte = "8 word"
type_synonym number = "int option"

definition CHUNK_SIZE :: nat where
  "CHUNK_SIZE = 50000"

text \<open>
  Both functions run the same two nested loops over the pixel indices:
  \<^verbatim>\<open>for (startPixel = 0; startPixel < totalPixels; startPixel += CHUNK_SIZE) {
    endPixel = Math.min(startPixel + CHUNK_SIZE, totalPixels);
    for (pixel = startPixel; pixel < endPixel; pixel++) { body }
    await new Promise(resolve => setTimeout(resolve, 0)); }\<close>
  with \<open>totalPixels = data.length / 4\<close>, a fraction when the length is no multiple of 4.
  \<open>len4\<close> is that length, so \<open>pixel < totalPixels\<close> is \<open>4 * pixel < len4\<close>.  The yield between
  chunks changes no data.
\<close>

function pixel_loop ::
  "(nat \<Rightarrow> byte list \<Rightarrow> byte list) \<Rightarrow> nat \<Rightarrow> nat \<Rightarrow> nat \<Rightarrow> byte list \<Rightarrow> byte list" where
  "pixel_loop body pixel chunkEnd len4 data =
     (if pixel < chunkEnd \<and> 4 * pixel < len4
      then pixel_loop body (pixel + 1) chunkEnd len4 (body pixel data)
      else data)"
  by pat_completeness auto
termination
  by (relation "measure (\<lambda>(body, pixel, chunkEnd, len4, data). chunkEnd - pixel)") auto

function chunk_loop ::
  "(nat \<Rightarrow> byte list \<Rightarrow> byte list) \<Rightarrow> nat \<Rightarrow> nat \<Rightarrow> byte list \<Rightarrow> byte list" where
  "chunk_loop body startPixel len4 data =
     (if 4 * startPixel < len4
      then chunk_loop body (startPixel + CHUNK_SIZE) len4
             (pixel_loop body startPixel (startPixel + CHUNK_SIZE) len4 data)
      else data)"
  by pat_completeness auto
termination
  by (relation "measure (\<lambda>(body, startPixel, len4, data). len4 - 4 * startPixel)")
     (auto simp: CHUNK_SIZE_def)

declare pixel_loop.simps [simp del] chunk_loop.simps [simp del]

text \<open>\<open>rd\<close> reads an element as a number; \<open>rd_store\<close> is what a read stores into another
  clamped array (\<open>undefined\<close> is stored as 0).\<close>

definition rd :: "byte list \<Rightarrow> nat \<Rightarrow> number" where
  "rd xs i = (if i < length xs then Some (uint (xs ! i)) else None)"

definition rd_store :: "byte list \<Rightarrow> nat \<Rightarrow> byte" where
  "rd_store xs i = (if i < length xs then xs ! i else 0)"

definition nsub :: "number \<Rightarrow> number \<Rightarrow> number" where
  "nsub a b = (case a of None \<Rightarrow> None | Some x \<Rightarrow> (case b of None \<Rightarrow> None | Some y \<Rightarrow> Some (x - y)))"

definition nadd :: "number \<Rightarrow> number \<Rightarrow> number" where
  "nadd a b = (case a of None \<Rightarrow> None | Some x \<Rightarrow> (case b of None \<Rightarrow> None | Some y \<Rightarrow> Some (x + y)))"

definition nsquare :: "number \<Rightarrow> number" where
  "nsquare a = (case a of None \<Rightarrow> None | Some x \<Rightarrow> Some (x ^ 2))"

definition nle :: "number \<Rightarrow> number \<Rightarrow> bool" where
  "nle a b = (case a of None \<Rightarrow> False | Some x \<Rightarrow> (case b of None \<Rightarrow> False | Some y \<Rightarrow> x \<le> y))"

definition ngt :: "number \<Rightarrow> number \<Rightarrow> bool" where
  "ngt a b = (case a of None \<Rightarrow> False | Some x \<Rightarrow> (case b of None \<Rightarrow> False | Some y \<Rightarrow> x > y))"

text \<open>
  Strings are ASCII.  \<open>parseInt(s, 16)\<close>: leading white space is skipped, then a sign,
  then an optional \<open>0x\<close>/\<open>0X\<close>, then the longest prefix of hexadecimal digits;
  no digit gives \<open>NaN\<close>.  \<open>str_slice\<close> is \<open>String.prototype.slice\<close> for non-negative
  arguments.
\<close>

definition isWhiteSpace :: "char \<Rightarrow> bool" where
  "isWhiteSpace c \<longleftrightarrow> (of_char c :: nat) \<in> {9, 10, 11, 12, 13, 32}"

definition hexDigit :: "char \<Rightarrow> int option" where
  "hexDigit c =
     (let n = (of_char c :: int) in
      if 48 \<le> n \<and> n \<le> 57 then Some (n - 48)
      else if 97 \<le> n \<and> n \<le> 102 then Some (n - 87)
      else if 65 \<le> n \<and> n \<le> 70 then Some (n - 55)
      else None)"

definition parseInt16 :: "string \<Rightarrow> number" where
  "parseInt16 s =
     (let s1 = dropWhile isWhiteSpace s;
          negative = (s1 \<noteq> [] \<and> hd s1 = CHR ''-'');
          s2 = (if s1 \<noteq> [] \<and> (hd s1 = CHR ''+'' \<or> hd s1 = CHR ''-'') then tl s1 else s1);
          s3 = (if take 2 s2 = ''0x'' \<or> take 2 s2 = ''0X'' then drop 2 s2 else s2);
          digits = takeWhile (\<lambda>c. hexDigit c \<noteq> None) s3;
          magnitude = foldl (\<lambda>acc c. 16 * acc + the (hexDigit c)) 0 digits
      in if digits = [] then None else Some (if negative then - magnitude else magnitude))"

definition str_slice :: "string \<Rightarrow> nat \<Rightarrow> nat \<Rightarrow> string" where
  "str_slice s start stop = take (stop - start) (drop start s)"

definition chroma_pixel :: "number \<Rightarrow> number \<Rightarrow> number \<Rightarrow> number \<Rightarrow> nat \<Rightarrow> byte list \<Rightarrow> byte list" where
  "chroma_pixel targetR targetG targetB toleranceSquared pixel data =
     (let i = pixel * 4;
          r = rd data i;
          g = rd data (i + 1);
          b = rd data (i + 2);
          distanceSquared =
            nadd (nadd (nsquare (nsub r targetR)) (nsquare (nsub g targetG)))
              (nsquare (nsub b targetB))
      in if nle distanceSquared toleranceSquared then data[i + 3 := 0] else data)"

definition removeSpecificColor :: "byte list \<Rightarrow> string \<Rightarrow> int \<Rightarrow> byte list" where
  "removeSpecificColor data targetColor tolerance =
     (let targetR = parseInt16 (str_slice targetColor 1 3);
          targetG = parseInt16 (str_slice targetColor 3 5);
          targetB = parseInt16 (str_slice targetColor 5 7);
          toleranceSquared = Some (tolerance * tolerance * 3)
      in chunk_loop (chroma_pixel targetR targetG targetB toleranceSquared) 0 (length data) data)"

text \<open>
  The compositing loop of \<open>blurBackgroundOnly\<close>.  \<open>maskData\<close> is the pixel data of the AI
  cutout, \<open>sharpData\<close> that of the original image and \<open>blurredData\<close> that of the canvas
  drawn with the blur filter; \<open>finalData\<close> starts as \<open>createImageData\<close> of the original's
  size, all zero.  The loop runs over the pixels of the mask.
\<close>

definition composite_pixel :: "byte list \<Rightarrow> byte list \<Rightarrow> byte list \<Rightarrow> nat \<Rightarrow> byte list \<Rightarrow> byte list" where
  "composite_pixel maskData sharpData blurredData pixel finalData =
     (let i = pixel * 4;
          alpha = rd maskData (i + 3)
      in if ngt alpha (Some 128)
         then finalData[i := rd_store sharpData i, i + 1 := rd_store sharpData (i + 1),
                i + 2 := rd_store sharpData (i + 2), i + 3 := 255]
         else finalData[i := rd_store blurredData i, i + 1 := rd_store blurredData (i + 1),
                i + 2 := rd_store blurredData (i + 2), i + 3 := 255])"

definition blurBackgroundOnly :: "byte list \<Rightarrow> byte list \<Rightarrow> byte list \<Rightarrow> byte list" where
  "blurBackgroundOnly maskData sharpData blurredData =
     chunk_loop (composite_pixel maskData sharpData blurredData) 0 (length maskData)
       (replicate (length sharpData) 0)"

text \<open>A loop body is local when it keeps the length, writes only to the four bytes of
  its own pixel, and its writes depend only on those bytes.\<close>

definition pixel_local :: "(nat \<Rightarrow> byte list \<Rightarrow> byte list) \<Rightarrow> bool" where
  "pixel_local body \<longleftrightarrow>
     (\<forall>p d. length (body p d) = length d) \<and>
     (\<forall>p d i. i div 4 \<noteq> p \<longrightarrow> body p d ! i = d ! i) \<and>
     (\<forall>p d d' i. length d = length d' \<and> (\<forall>j. j div 4 = p \<longrightarrow> d ! j = d' ! j) \<and> i div 4 = p
        \<longrightarrow> body p d ! i = body p d' ! i)"


section \<open>Worker pool (lib/workerPool.ts)\<close>

text \<open>
  A \<open>WorkerJob\<close> carries four callbacks of the caller.  The model does not run them: each
  invocation is appended to the pool's \<open>trace\<close>, tagged with the job whose callback it
  was.  Callbacks are taken not to call back into the pool.
\<close>

type_synonym JobId = string

record File =
  file_name :: string
  file_type :: string

record WorkerJob =
  job_id :: JobId
  job_file :: File

datatype WorkerMessage = Init | Process File

datatype WorkerResponse =
  Ready | Progress nat string | Complete string | Error string bool

datatype callback =
  OnStart WorkerJob
  | OnProgress WorkerJob nat string
  | OnComplete WorkerJob string
  | OnError WorkerJob string

text \<open>
  A \<open>Worker\<close> is an execution context: it is numbered in the order of creation and
  \<open>inbox\<close> holds what \<open>postMessage\<close> has sent to it.  \<open>currentJobId\<close> is optional in the
  wrapper; \<open>None\<close> is \<open>undefined\<close>.
\<close>

record Worker =
  worker_no :: nat
  inbox :: "WorkerMessage list"

record WorkerWrapper =
  wid :: nat
  worker :: Worker
  busy :: bool
  currentJobId :: "JobId option"

definition MAX_CONCURRENCY :: nat where
  "MAX_CONCURRENCY = 2"

text \<open>
  The pool.  \<open>activeJobs\<close> is a \<open>Map\<close>: an association list with one entry per key, in
  insertion order.  Three fields record what the JavaScript runtime holds:
  \<open>pendingReads\<close> are the calls of \<open>processNext\<close> suspended at
  \<open>await job.file.arrayBuffer()\<close>, each with the wrapper (its index in \<open>workers\<close>) and the
  job of its closure; \<open>created\<close> counts the \<open>Worker\<close> objects constructed and
  \<open>terminated\<close> lists those on which \<open>terminate()\<close> was called.
\<close>

record WorkerPool =
  workers :: "WorkerWrapper list"
  queue :: "WorkerJob list"
  activeJobs :: "(JobId \<times> WorkerJob) list"
  initialized :: bool
  pendingReads :: "(nat \<times> WorkerJob) list"
  trace :: "callback list"
  created :: nat
  terminated :: "Worker list"

definition new_pool :: WorkerPool where
  "new_pool =
     \<lparr>workers = [], queue = [], activeJobs = [], initialized = False,
      pendingReads = [], trace = [], created = 0, terminated = []\<rparr>"

fun findIndex :: "('a \<Rightarrow> bool) \<Rightarrow> 'a list \<Rightarrow> nat option" where
  "findIndex P [] = None"
| "findIndex P (x # xs) = (if P x then Some 0 else map_option Suc (findIndex P xs))"

definition new_worker :: "nat \<Rightarrow> Worker" where
  "new_worker n = \<lparr>worker_no = n, inbox = [Init]\<rparr>"

definition init :: "WorkerPool \<Rightarrow> WorkerPool" where
  "init p =
     (if initialized p then p
      else p\<lparr>workers := workers p @
                 map (\<lambda>i. \<lparr>wid = i, worker = new_worker (created p + i), busy = False,
                            currentJobId = None\<rparr>) [0..<MAX_CONCURRENCY],
             created := created p + MAX_CONCURRENCY,
             initialized := True\<rparr>)"

text \<open>\<open>processNext\<close> up to its \<open>await\<close>; the rest of it is \<open>read_done\<close>.\<close>

definition processNext :: "WorkerPool \<Rightarrow> WorkerPool" where
  "processNext p =
     (case findIndex (\<lambda>w. \<not> busy w) (workers p) of
        None \<Rightarrow> p
      | Some i \<Rightarrow>
          (case queue p of
             [] \<Rightarrow> p
           | job # rest \<Rightarrow>
               p\<lparr>queue := rest,
                 workers := (workers p)[i := (workers p ! i)\<lparr>busy := True,
                                                            currentJobId := Some (job_id job)\<rparr>],
                 activeJobs := AList.update (job_id job) job (activeJobs p),
                 trace := trace p @ [OnStart job],
                 pendingReads := pendingReads p @ [(i, job)]\<rparr>))"

definition releaseWorker :: "nat \<Rightarrow> WorkerPool \<Rightarrow> WorkerPool" where
  "releaseWorker i p =
     processNext
       (p\<lparr>workers := (workers p)[i := (workers p ! i)\<lparr>busy := False, currentJobId := None\<rparr>]\<rparr>)"

text \<open>
  The continuation of the \<open>k\<close>-th suspended \<open>processNext\<close>: the read of the file either
  succeeds, and the bytes are posted to whatever \<open>Worker\<close> the wrapper holds by then, or
  throws, and the \<open>catch\<close> block runs.
\<close>

definition read_done :: "nat \<Rightarrow> bool \<Rightarrow> WorkerPool \<Rightarrow> WorkerPool" where
  "read_done k ok p =
     (if k < length (pendingReads p)
      then let i = fst (pendingReads p ! k);
               job = snd (pendingReads p ! k);
               p1 = p\<lparr>pendingReads := take k (pendingReads p) @ drop (Suc k) (pendingReads p)\<rparr>
           in if ok
              then p1\<lparr>workers := (workers p1)[i := (workers p1 ! i)
                        \<lparr>worker := (worker (workers p1 ! i))
                           \<lparr>inbox := inbox (worker (workers p1 ! i)) @ [Process (job_file job)]\<rparr>\<rparr>]\<rparr>
              else releaseWorker i (p1\<lparr>trace := trace p1 @ [OnError job ''Failed to read file'']\<rparr>)
      else p)"

definition addJob :: "WorkerJob \<Rightarrow> WorkerPool \<Rightarrow> WorkerPool" where
  "addJob job p = processNext ((init p)\<lparr>queue := queue (init p) @ [job]\<rparr>)"

definition cancelJob :: "JobId \<Rightarrow> WorkerPool \<Rightarrow> WorkerPool" where
  "cancelJob ident p =
     (let p1 = p\<lparr>queue := filter (\<lambda>job. job_id job \<noteq> ident) (queue p)\<rparr> in
      if map_of (activeJobs p1) ident \<noteq> None
      then let p2 = p1\<lparr>activeJobs := AList.delete ident (activeJobs p1)\<rparr> in
           (case findIndex (\<lambda>w. currentJobId w = Some ident) (workers p2) of
              None \<Rightarrow> p2
            | Some i \<Rightarrow>
                processNext
                  (p2\<lparr>terminated := terminated p2 @ [worker (workers p2 ! i)],
                      created := created p2 + 1,
                      workers := (workers p2)[i := (workers p2 ! i)
                        \<lparr>worker := new_worker (created p2), busy := False,
                         currentJobId := None\<rparr>]\<rparr>))
      else p1)"

text \<open>\<open>if (!jobId) return\<close> also returns on the empty string, which is falsy.\<close>

definition handleMessage :: "nat \<Rightarrow> WorkerResponse \<Rightarrow> WorkerPool \<Rightarrow> WorkerPool" where
  "handleMessage workerId response p =
     (case findIndex (\<lambda>w. wid w = workerId) (workers p) of
        None \<Rightarrow> p
      | Some i \<Rightarrow>
          (case currentJobId (workers p ! i) of
             None \<Rightarrow> p
           | Some jobId \<Rightarrow>
               if jobId = [] then p
               else (case map_of (activeJobs p) jobId of
                  None \<Rightarrow> p
                | Some job \<Rightarrow>
                    (case response of
                       Progress percent stage \<Rightarrow>
                         p\<lparr>trace := trace p @ [OnProgress job percent stage]\<rparr>
                     | Complete resultBlob \<Rightarrow>
                         releaseWorker i
                           (p\<lparr>trace := trace p @ [OnComplete job resultBlob],
                              activeJobs := AList.delete jobId (activeJobs p)\<rparr>)
                     | Error message retryable \<Rightarrow>
                         releaseWorker i
                           (p\<lparr>trace := trace p @ [OnError job message],
                              activeJobs := AList.delete jobId (activeJobs p)\<rparr>)
                     | Ready \<Rightarrow> p))))"

definition getActiveCount :: "WorkerPool \<Rightarrow> nat" where
  "getActiveCount p = length (activeJobs p)"

definition getQueueLength :: "WorkerPool \<Rightarrow> nat" where
  "getQueueLength p = length (queue p)"

text \<open>
  What can happen to a pool: the two public calls, a message event of the \<open>Worker\<close> held
  by a slot, and the completion of a suspended file read.
\<close>

datatype event =
  AddJob WorkerJob | CancelJob JobId | Message nat WorkerResponse | ReadDone nat bool

fun step :: "event \<Rightarrow> WorkerPool \<Rightarrow> WorkerPool" where
  "step (AddJob job) p = addJob job p"
| "step (CancelJob ident) p = cancelJob ident p"
| "step (Message workerId response) p = handleMessage workerId response p"
| "step (ReadDone k ok) p = read_done k ok p"

definition run :: "event list \<Rightarrow> WorkerPool \<Rightarrow> WorkerPool" where
  "run events p = foldl (\<lambda>p e. step e p) p events"

text \<open>
  The jobs in flight: the jobs the pool has started (\<open>onStart\<close>) more often than it has
  finished them (\<open>onComplete\<close> or \<open>onError\<close>) and that are still entered in the active
  map, that is, not cancelled.  Whether a slot is still bound to the job does not matter:
  its file is being read or its bytes are with a worker.
\<close>

fun startedJob :: "callback \<Rightarrow> WorkerJob list" where
  "startedJob (OnStart job) = [job]"
| "startedJob _ = []"

fun finishedJob :: "callback \<Rightarrow> WorkerJob list" where
  "finishedJob (OnComplete job resultBlob) = [job]"
| "finishedJob (OnError job message) = [job]"
| "finishedJob _ = []"

definition inFlight :: "WorkerPool \<Rightarrow> WorkerJob list" where
  "inFlight p =
     filter
       (\<lambda>job. count_list (concat (map finishedJob (trace p))) job
                 < count_list (concat (map startedJob (trace p))) job \<and>
              map_of (activeJobs p) (job_id job) = Some job)
       (remdups (concat (map startedJob (trace p))))"

definition mk_job :: "string \<Rightarrow> WorkerJob" where
  "mk_job ident = \<lparr>job_id = ident, job_file = \<lparr>file_name = ident @ ''.png'', file_type = ''image/png''\<rparr>\<rparr>"

fun mentions :: "JobId \<Rightarrow> event \<Rightarrow> bool" where
  "mentions ident (AddJob job) = (job_id job = ident)"
| "mentions ident (CancelJob ident') = (ident' = ident)"
| "mentions ident _ = False"

definition unbound :: "JobId \<Rightarrow> WorkerPool \<Rightarrow> bool" where
  "unbound ident p \<longleftrightarrow>
     ident \<notin> job_id ` set (queue p) \<and> (\<forall>w \<in> set (workers p). currentJobId w \<noteq> Some ident)"

text \<open>Invariants and views used in the statements about the pool.\<close>

definition slots_ok :: "WorkerPool \<Rightarrow> bool" where
  "slots_ok p \<longleftrightarrow> length (workers p) = (if initialized p then MAX_CONCURRENCY else 0)"

definition slot_view :: "WorkerPool \<Rightarrow> (bool \<times> JobId option) list" where
  "slot_view p = map (\<lambda>w. (busy w, currentJobId w)) (workers p)"

definition stuck :: "JobId \<Rightarrow> WorkerPool \<Rightarrow> bool" where
  "stuck ident p \<longleftrightarrow> ident \<in> fst ` set (activeJobs p) \<and> unbound ident p"

definition job_a :: WorkerJob where
  "job_a = mk_job ''a''"

definition job_b :: WorkerJob where
  "job_b = mk_job ''b''"

definition job_c :: WorkerJob where
  "job_c = mk_job ''c''"

definition job_d :: WorkerJob where
  "job_d = mk_job ''d''"

section \<open>Render engine (lib/editor/RenderEngine.ts) and filter effects\<close>

text \<open>
  Storing a number into a \<open>Uint8ClampedArray\<close> clamps it to 0..255 and rounds it to the
  nearest integer, halves to the even one.  Reading past the end of the array gives
  \<open>undefined\<close>, which turns every later result of the pixel into \<open>NaN\<close>; \<open>NaN\<close> is stored
  as 0.
\<close>

definition toUint8Clamp :: "real \<Rightarrow> byte" where
  "toUint8Clamp x =
     (if x \<le> 0 then 0
      else if 255 \<le> x then 255
      else let f = \<lfloor>x\<rfloor> in
           word_of_int
             (if x - of_int f < 1 / 2 then f
              else if 1 / 2 < x - of_int f then f + 1
              else if even f then f else f + 1))"

definition rd_real :: "byte list \<Rightarrow> nat \<Rightarrow> real option" where
  "rd_real xs i = (if i < length xs then Some (of_int (uint (xs ! i))) else None)"

text \<open>\<open>for (let i = 0; i < data.length; i += 4) { body }\<close>, with \<open>n = data.length\<close>.\<close>

function filter_loop ::
  "(nat \<Rightarrow> byte list \<Rightarrow> byte list) \<Rightarrow> nat \<Rightarrow> nat \<Rightarrow> byte list \<Rightarrow> byte list" where
  "filter_loop body i n data =
     (if i < n then filter_loop body (i + 4) n (body i data) else data)"
  by pat_completeness auto
termination
  by (relation "measure (\<lambda>(body, i, n, data). n - i)") auto

declare filter_loop.simps [simp del]

text \<open>
  \<open>FilterEffectParams\<close> of the editor state; \<open>effect.params as FilterEffectParams\<close> reads
  the fields out of the parameter bag.  The interface requires the numeric fields; a bag
  without one is outside the type and the projection is left unspecified there.
\<close>

record FilterEffectParams =
  preset :: "string option"
  brightness :: real
  contrast :: real
  saturation :: real
  temperature :: real
  intensity :: real

definition num_field :: "params \<Rightarrow> string \<Rightarrow> real" where
  "num_field ps k = (case map_of ps k of Some (JNum x) \<Rightarrow> x)"

definition asFilterEffectParams :: "params \<Rightarrow> FilterEffectParams" where
  "asFilterEffectParams ps =
     \<lparr>preset = (case map_of ps ''preset'' of Some (JStr s) \<Rightarrow> Some s | _ \<Rightarrow> None),
      brightness = num_field ps ''brightness'',
      contrast = num_field ps ''contrast'',
      saturation = num_field ps ''saturation'',
      temperature = num_field ps ''temperature'',
      intensity = num_field ps ''intensity''\<rparr>"

text \<open>The pixel loop of \<open>RenderEngine.applyFilter\<close>, on the data of \<open>getImageData\<close>.\<close>

definition applyFilter_pixel :: "FilterEffectParams \<Rightarrow> nat \<Rightarrow> byte list \<Rightarrow> byte list" where
  "applyFilter_pixel params i data =
     (let brightness' = 1 + brightness params;
          contrast' = 1 + contrast params;
          saturation' = 1 + saturation params
      in case (rd_real data i, rd_real data (i + 1), rd_real data (i + 2)) of
           (Some r0, Some g0, Some b0) \<Rightarrow>
             (let r1 = r0 * brightness';
                  g1 = g0 * brightness';
                  b1 = b0 * brightness';
                  r2 = ((r1 / 255 - 0.5) * contrast' + 0.5) * 255;
                  g2 = ((g1 / 255 - 0.5) * contrast' + 0.5) * 255;
                  b2 = ((b1 / 255 - 0.5) * contrast' + 0.5) * 255;
                  gray = 0.299 * r2 + 0.587 * g2 + 0.114 * b2;
                  r3 = gray + saturation' * (r2 - gray);
                  g3 = gray + saturation' * (g2 - gray);
                  b3 = gray + saturation' * (b2 - gray)
              in data[i := toUint8Clamp (max 0 (min 255 r3)),
                      i + 1 := toUint8Clamp (max 0 (min 255 g3)),
                      i + 2 := toUint8Clamp (max 0 (min 255 b3))])
         | _ \<Rightarrow> data[i := 0, i + 1 := 0, i + 2 := 0])"

definition applyFilter :: "FilterEffectParams \<Rightarrow> byte list \<Rightarrow> byte list" where
  "applyFilter params data = filter_loop (applyFilter_pixel params) 0 (length data) data"

text \<open>
  \<open>applyFilters\<close> of lib/imageEffects/filters.ts: the parameters are merged with the
  defaults (all 0) and scaled by the intensity, then the pixel loop runs.  The vignette and
  grain passes that follow the loop for a positive \<open>vignette\<close> or \<open>grain\<close> are functions of
  their own and are not modelled; \<open>applyFilters_pixels\<close> is the data after the loop.
\<close>

record FilterParams =
  p_brightness :: real
  p_contrast :: real
  p_saturation :: real
  p_temperature :: real
  p_hue :: real
  p_exposure :: real
  p_vignette :: real
  p_grain :: real
  p_sharpness :: real

definition DEFAULT_FILTER_PARAMS :: FilterParams where
  "DEFAULT_FILTER_PARAMS =
     \<lparr>p_brightness = 0, p_contrast = 0, p_saturation = 0, p_temperature = 0, p_hue = 0,
      p_exposure = 0, p_vignette = 0, p_grain = 0, p_sharpness = 0\<rparr>"

definition with_intensity :: "FilterParams \<Rightarrow> real \<Rightarrow> FilterParams" where
  "with_intensity params intensity' =
     \<lparr>p_brightness = p_brightness params * intensity',
      p_contrast = p_contrast params * intensity',
      p_saturation = p_saturation params * intensity',
      p_temperature = p_temperature params * intensity',
      p_hue = p_hue params * intensity',
      p_exposure = p_exposure params * intensity',
      p_vignette = p_vignette params * intensity',
      p_grain = p_grain params * intensity',
      p_sharpness = p_sharpness params * intensity'\<rparr>"

definition applyFilters_pixel :: "FilterParams \<Rightarrow> nat \<Rightarrow> byte list \<Rightarrow> byte list" where
  "applyFilters_pixel p i data =
     (let brightnessMultiplier = 1 + p_brightness p;
          contrastFactor = (1 + p_contrast p) ^ 2;
          saturationFactor = 1 + p_saturation p;
          exposureFactor = 2 powr p_exposure p
      in case (rd_real data i, rd_real data (i + 1), rd_real data (i + 2)) of
           (Some r0, Some g0, Some b0) \<Rightarrow>
             (let re = r0 * exposureFactor;
                  ge = g0 * exposureFactor;
                  be = b0 * exposureFactor;
                  r1 = re * brightnessMultiplier;
                  g1 = ge * brightnessMultiplier;
                  b1 = be * brightnessMultiplier;
                  r2 = ((r1 / 255 - 0.5) * contrastFactor + 0.5) * 255;
                  g2 = ((g1 / 255 - 0.5) * contrastFactor + 0.5) * 255;
                  b2 = ((b1 / 255 - 0.5) * contrastFactor + 0.5) * 255;
                  gray = 0.299 * r2 + 0.587 * g2 + 0.114 * b2;
                  r3 = gray + saturationFactor * (r2 - gray);
                  g3 = gray + saturationFactor * (g2 - gray);
                  b3 = gray + saturationFactor * (b2 - gray);
                  tempShift = p_temperature p * 30;
                  r4 = (if p_temperature p \<noteq> 0 then r3 + tempShift else r3);
                  b4 = (if p_temperature p \<noteq> 0 then b3 - tempShift else b3)
              in data[i := toUint8Clamp (max 0 (min 255 r4)),
                      i + 1 := toUint8Clamp (max 0 (min 255 g3)),
                      i + 2 := toUint8Clamp (max 0 (min 255 b4))])
         | _ \<Rightarrow> data[i := 0, i + 1 := 0, i + 2 := 0])"

definition applyFilters_pixels :: "FilterParams \<Rightarrow> real \<Rightarrow> byte list \<Rightarrow> byte list" where
  "applyFilters_pixels params intensity' data =
     filter_loop (applyFilters_pixel (with_intensity params intensity')) 0 (length data) data"

text \<open>
  The canvas of the engine is the browser's.  Its state is a value of an arbitrary type
  \<open>'c\<close>, and the drawing primitives the engine calls are the fields of \<open>CanvasOps\<close>:
  \<open>resetCanvas\<close> sets width and height and clears; \<open>save\<close>, \<open>restore\<close>, \<open>translate\<close>,
  \<open>rotate\<close> and \<open>scaleBy\<close> are the context methods; \<open>renderBackground\<close>, \<open>renderBorder\<close>
  and \<open>renderSubject\<close> are the engine's painters, which only draw; \<open>applyShadow\<close> re-draws
  with shadow settings; \<open>stackBlur\<close> is \<open>StackBlur.canvasRGBA\<close>; \<open>exportToBlob\<close> encodes.
\<close>

datatype RenderQuality = Preview | Export

record RenderOptions =
  quality :: RenderQuality
  format :: "string option"
  jpegQuality :: "real option"

record ImageBitmap =
  bitmap_width :: nat
  bitmap_height :: nat
  bitmap_data :: "byte list"

record ('c, 'blob) CanvasOps =
  resetCanvas :: "int \<Rightarrow> int \<Rightarrow> 'c \<Rightarrow> 'c"
  save :: "'c \<Rightarrow> 'c"
  restore :: "'c \<Rightarrow> 'c"
  translate :: "real \<Rightarrow> real \<Rightarrow> 'c \<Rightarrow> 'c"
  rotate :: "real \<Rightarrow> 'c \<Rightarrow> 'c"
  scaleBy :: "real \<Rightarrow> real \<Rightarrow> 'c \<Rightarrow> 'c"
  renderBackground :: "params \<Rightarrow> int \<Rightarrow> int \<Rightarrow> 'c \<Rightarrow> 'c"
  renderBorder :: "params \<Rightarrow> int \<Rightarrow> int \<Rightarrow> 'c \<Rightarrow> 'c"
  renderSubject :: "ImageBitmap \<Rightarrow> ImageBitmap option \<Rightarrow> int \<Rightarrow> int \<Rightarrow> real \<Rightarrow> 'c \<Rightarrow> 'c"
  applyShadow :: "params \<Rightarrow> int \<Rightarrow> int \<Rightarrow> 'c \<Rightarrow> 'c"
  getImageData :: "int \<Rightarrow> int \<Rightarrow> 'c \<Rightarrow> byte list"
  putImageData :: "byte list \<Rightarrow> 'c \<Rightarrow> 'c"
  stackBlur :: "int \<Rightarrow> int \<Rightarrow> int \<Rightarrow> 'c \<Rightarrow> 'c"
  exportToBlob :: "RenderOptions \<Rightarrow> 'c \<Rightarrow> 'blob"

definition renderLayer ::
  "('c, 'blob) CanvasOps \<Rightarrow> Layer \<Rightarrow> EditorState \<Rightarrow> ImageBitmap \<Rightarrow> ImageBitmap option \<Rightarrow>
     int \<Rightarrow> int \<Rightarrow> real \<Rightarrow> 'c \<Rightarrow> 'c" where
  "renderLayer ops layer state originalImage alphaMask w h scale c =
     (let c1 = save ops c;
          t = transform layer;
          c2 = translate ops (of_int w * translateX t) (of_int h * translateY t) c1;
          c3 = rotate ops (rotation t * pi / 180) c2;
          c4 = scaleBy ops (scaleX t) (scaleY t) c3;
          c5 = (case layer_type layer of
                  background \<Rightarrow> renderBackground ops (layer_params layer) w h c4
                | border \<Rightarrow> renderBorder ops (layer_params layer) w h c4
                | subject \<Rightarrow> renderSubject ops originalImage alphaMask w h scale c4
                | sticker \<Rightarrow> c4
                | watermark \<Rightarrow> c4)
      in restore ops c5)"

text \<open>\<open>Math.round\<close> rounds halves up.\<close>

definition Math_round :: "real \<Rightarrow> int" where
  "Math_round x = \<lfloor>x + 1 / 2\<rfloor>"

definition applyBlur :: "('c, 'blob) CanvasOps \<Rightarrow> params \<Rightarrow> int \<Rightarrow> int \<Rightarrow> 'c \<Rightarrow> 'c" where
  "applyBlur ops ps w h c =
     (let radius = Math_round (num_field ps ''radius'' * of_int (min w h))
      in if radius \<le> 0 then c else stackBlur ops w h radius c)"

definition applyEffect :: "('c, 'blob) CanvasOps \<Rightarrow> EffectNode \<Rightarrow> int \<Rightarrow> int \<Rightarrow> 'c \<Rightarrow> 'c" where
  "applyEffect ops effect w h c =
     (case effect_type effect of
        shadow_effect \<Rightarrow> applyShadow ops (effect_params effect) w h c
      | filter_effect \<Rightarrow>
          putImageData ops
            (applyFilter (asFilterEffectParams (effect_params effect)) (getImageData ops w h c)) c
      | blur_effect \<Rightarrow> applyBlur ops (effect_params effect) w h c
      | _ \<Rightarrow> c)"

text \<open>
  \<open>render\<close>.  An \<open>ImageBitmap\<close> has positive dimensions, so the quotient of the preview
  scale is defined; the engine's canvas before the call is \<open>c\<close>.
\<close>

definition render ::
  "('c, 'blob) CanvasOps \<Rightarrow> 'c \<Rightarrow> EditorState \<Rightarrow> ImageBitmap \<Rightarrow> ImageBitmap option \<Rightarrow>
     RenderOptions \<Rightarrow> 'blob" where
  "render ops c state originalImage alphaMask options =
     (let scale = (if quality options = Preview
                   then min 1 (previewQuality state /
                          of_nat (max (bitmap_width originalImage) (bitmap_height originalImage)))
                   else 1);
          w = Math_round (of_nat (bitmap_width originalImage) * scale);
          h = Math_round (of_nat (bitmap_height originalImage) * scale);
          c0 = resetCanvas ops w h c;
          c1 = foldl (\<lambda>cv layer.
                  if \<not> visible layer then cv
                  else renderLayer ops layer state originalImage alphaMask w h scale cv)
                c0 (layers state);
          c2 = foldl (\<lambda>cv effect. if \<not> enabled effect then cv else applyEffect ops effect w h cv)
                c1 (effects state)
      in exportToBlob ops options c2)"

definition warm_params :: FilterEffectParams where
  "warm_params =
     \<lparr>preset = None, brightness = 0, contrast = 0, saturation = 0, temperature = 1, intensity = 1\<rparr>"

definition warm_filter :: FilterParams where
  "warm_filter = DEFAULT_FILTER_PARAMS\<lparr>p_temperature := 1\<rparr>"

definition contrast_params :: FilterEffectParams where
  "contrast_params =
     \<lparr>preset = None, brightness = 0, contrast = 1 / 2, saturation = 0, temperature = 0, intensity = 1\<rparr>"

definition contrast_filter :: FilterParams where
  "contrast_filter = DEFAULT_FILTER_PARAMS\<lparr>p_contrast := 1 / 2\<rparr>"

definition without_effect :: "EditorState \<Rightarrow> nat \<Rightarrow> EditorState" where
  "without_effect state i =
     state\<lparr>effects := take i (effects state) @ drop (Suc i) (effects state)\<rparr>"

text \<open>A canvas for evaluation: the list of the drawing calls made on it.\<close>

definition log_ops :: "(string list, string list) CanvasOps" where
  "log_ops =
     \<lparr>resetCanvas = (\<lambda>w h c. []),
      save = (\<lambda>c. c),
      restore = (\<lambda>c. c),
      translate = (\<lambda>x y c. c),
      rotate = (\<lambda>a c. c),
      scaleBy = (\<lambda>x y c. c),
      renderBackground = (\<lambda>ps w h c. c @ [''background'']),
      renderBorder = (\<lambda>ps w h c. c @ [''border'']),
      renderSubject = (\<lambda>img mask w h s c. c @ [''subject'']),
      applyShadow = (\<lambda>ps w h c. c @ [''shadow'']),
      getImageData = (\<lambda>w h c. []),
      putImageData = (\<lambda>d c. c @ [''filter'']),
      stackBlur = (\<lambda>w h r c. c @ [''blur'']),
      exportToBlob = (\<lambda>opts c. c)\<rparr>"

definition photo :: ImageBitmap where
  "photo = \<lparr>bitmap_width = 100, bitmap_height = 100, bitmap_data = []\<rparr>"

definition png_preview :: RenderOptions where
  "png_preview = \<lparr>quality = Preview, format = Some ''png'', jpegQuality = None\<rparr>"

definition state_fx :: EditorState where
  "state_fx = state0\<lparr>effects := [fx1, fx2]\<rparr>"

section \<open>Properties of the command history\<close>

lemma cursor_ok_new: "cursor_ok new_history"
  by (simp add: cursor_ok_def new_history_def)

lemma cursor_ok_step:
  assumes "cursor_ok (fst hs)"
  shows "cursor_ok (fst (history_step applyFn call hs))"
proof (cases call)
  case (Execute c)
  with assms show ?thesis
    by (auto simp: cursor_ok_def execute_def slice0_def Let_def maxHistory_def)
next
  case Undo
  with assms show ?thesis
    by (auto simp: cursor_ok_def undo_def canUndo_def Let_def)
next
  case Redo
  with assms show ?thesis
    by (auto simp: cursor_ok_def redo_def canRedo_def Let_def)
next
  case Clear
  then show ?thesis
    by (simp add: cursor_ok_def clear_def)
qed

lemma cursor_ok_foldl:
  "cursor_ok (fst hs) \<Longrightarrow> cursor_ok (fst (foldl (\<lambda>hs c. history_step applyFn c hs) hs calls))"
  by (induction calls arbitrary: hs) (simp_all add: cursor_ok_step)

lemma cursor_ok_run: "cursor_ok (fst (run_history applyFn calls s0))"
  unfolding run_history_def by (rule cursor_ok_foldl) (simp add: cursor_ok_new)


lemma execute_commands_subset:
  "set (commands (fst (execute c f hs))) \<subseteq> insert c (set (commands (fst hs)))"
proof -
  let ?h = "fst hs"
  let ?cmds1 = "if currentIndex ?h < int (length (commands ?h)) - 1
                then slice0 (commands ?h) (currentIndex ?h + 1) else commands ?h"
  have 1: "set ?cmds1 \<subseteq> set (commands ?h)"
    by (auto simp: slice0_def dest: in_set_takeD)
  have 2: "set (tl xs) \<subseteq> set xs" for xs :: "Command list"
    by (cases xs) auto
  have 3: "commands (fst (execute c f hs)) = ?cmds1 @ [c]
           \<or> commands (fst (execute c f hs)) = tl (?cmds1 @ [c])"
    by (simp add: execute_def Let_def)
  have 4: "set (?cmds1 @ [c]) \<subseteq> insert c (set (commands ?h))"
    using 1 by auto
  from 3 show ?thesis
  proof
    assume "commands (fst (execute c f hs)) = ?cmds1 @ [c]"
    with 4 show ?thesis by simp
  next
    assume "commands (fst (execute c f hs)) = tl (?cmds1 @ [c])"
    with 4 2[of "?cmds1 @ [c]"] show ?thesis by (simp only:)
  qed
qed

text \<open>
  C9.  Commands of type \<open>ADD_LAYER\<close>, \<open>REMOVE_LAYER\<close> and \<open>SET_BACKGROUND\<close> fall through
  to the \<open>default\<close> branch of \<open>applyCommand\<close>: the state is returned unchanged for either
  direction, and a history that only ever executes such commands leaves the editor state
  as it was, whatever is executed, undone or redone.
\<close>

theorem applyCommand_ignores_layer_and_background_commands:
  "(ignored_type (ctype c) \<longrightarrow> applyCommand s c reverse = s) \<and>
   ((\<forall>call \<in> set calls. executes_only_ignored call) \<longrightarrow>
      snd (run_history applyFn_editor calls s) = s)"
proof
  show "ignored_type (ctype c) \<longrightarrow> applyCommand s c reverse = s"
    by (auto simp: ignored_type_def applyCommand_def Let_def)
next
  have ign: "applyFn_editor cmd r st = st" if "ignored_type (ctype cmd)" for cmd r st
    using that by (auto simp: applyFn_editor_def ignored_type_def applyCommand_def Let_def)
  have step: "cursor_ok (fst (history_step applyFn_editor call hs))
        \<and> (\<forall>c \<in> set (commands (fst (history_step applyFn_editor call hs))). ignored_type (ctype c))
        \<and> snd (history_step applyFn_editor call hs) = snd hs"
    if "cursor_ok (fst hs)" "\<forall>c \<in> set (commands (fst hs)). ignored_type (ctype c)"
       "executes_only_ignored call" for call hs
  proof (cases call)
    case (Execute c)
    from that Execute have "ignored_type (ctype c)" by simp
    moreover have "set (commands (fst (execute c f hs))) \<subseteq> insert c (set (commands (fst hs)))" for f
      by (rule execute_commands_subset)
    moreover have "snd (execute c f hs) = f c (snd hs)" for f
      by (simp add: execute_def Let_def)
    ultimately show ?thesis
      using that(1,2) Execute cursor_ok_step[of hs applyFn_editor call]
      by (auto simp: ign)
  next
    case Undo
    have "commands (fst hs) ! nat (currentIndex (fst hs)) \<in> set (commands (fst hs))"
      if "canUndo (fst hs)"
      using that \<open>cursor_ok (fst hs)\<close> by (auto simp: canUndo_def cursor_ok_def)
    then show ?thesis
      using that Undo cursor_ok_step[of hs applyFn_editor call]
      by (auto simp: undo_def Let_def ign)
  next
    case Redo
    have "commands (fst hs) ! nat (currentIndex (fst hs) + 1) \<in> set (commands (fst hs))"
      if "canRedo (fst hs)"
      using that \<open>cursor_ok (fst hs)\<close> by (auto simp: canRedo_def cursor_ok_def)
    then show ?thesis
      using that Redo cursor_ok_step[of hs applyFn_editor call]
      by (auto simp: redo_def Let_def ign)
  next
    case Clear
    then show ?thesis by (simp add: clear_def cursor_ok_def)
  qed
  have run: "snd (foldl (\<lambda>hs c. history_step applyFn_editor c hs) hs calls) = snd hs"
    if "cursor_ok (fst hs)" "\<forall>c \<in> set (commands (fst hs)). ignored_type (ctype c)"
       "\<forall>call \<in> set calls. executes_only_ignored call" for hs
    using that
  proof (induction calls arbitrary: hs)
    case Nil
    then show ?case by simp
  next
    case (Cons call calls)
    from step[of hs call] Cons.prems
    have s: "cursor_ok (fst (history_step applyFn_editor call hs))"
      "\<forall>c \<in> set (commands (fst (history_step applyFn_editor call hs))). ignored_type (ctype c)"
      "snd (history_step applyFn_editor call hs) = snd hs"
      by simp_all
    from Cons.IH[OF s(1) s(2)] Cons.prems(3) s(3) show ?case by simp
  qed
  show "(\<forall>call \<in> set calls. executes_only_ignored call) \<longrightarrow>
      snd (run_history applyFn_editor calls s) = s"
    unfolding run_history_def
    using run[of "(new_history, s)"] cursor_ok_new by (simp add: new_history_def)
qed

theorem applyCommand_ignores_layer_and_background_commands_witness:
  "ignored_type (ctype add_layer_cmd) \<and>
   applyCommand state0 add_layer_cmd True = state0 \<and>
   applyCommand state0 add_layer_cmd False = state0 \<and>
   executes_only_ignored (Execute add_layer_cmd) \<and>
   snd (run_history applyFn_editor [Execute add_layer_cmd, Undo, Redo] state0) = state0"
  using applyCommand_ignores_layer_and_background_commands
          [of add_layer_cmd state0 True "[Execute add_layer_cmd, Undo, Redo]"]
        applyCommand_ignores_layer_and_background_commands
          [of add_layer_cmd state0 False "[]"]
  by (simp add: ignored_type_def add_layer_cmd_def createCommand_def)

lemma execute_after_undo:
  assumes "cursor_ok h"
  shows "\<not> canRedo (fst (execute c f (h, s)))"
    and "commands (fst (execute c f (h, s))) =
           (if length (take (nat (currentIndex h + 1)) (commands h) @ [c]) > maxHistory
            then tl (take (nat (currentIndex h + 1)) (commands h) @ [c])
            else take (nat (currentIndex h + 1)) (commands h) @ [c])"
proof -
  let ?kept = "take (nat (currentIndex h + 1)) (commands h)"
  let ?cmds1 = "if currentIndex h < int (length (commands h)) - 1
                then slice0 (commands h) (currentIndex h + 1) else commands h"
  have len: "int (length ?kept) = currentIndex h + 1"
    using assms by (auto simp: cursor_ok_def)
  have cmds1: "?cmds1 = ?kept"
    using assms by (auto simp: cursor_ok_def slice0_def)
  have ex: "fst (execute c f (h, s)) =
      h\<lparr>commands := (if length (?kept @ [c]) > maxHistory then tl (?kept @ [c]) else ?kept @ [c]),
        currentIndex := (if length (?kept @ [c]) > maxHistory then currentIndex h + 1 - 1
                         else currentIndex h + 1)\<rparr>"
    unfolding execute_def Let_def fst_conv cmds1 by simp
  show "commands (fst (execute c f (h, s))) =
           (if length (?kept @ [c]) > maxHistory then tl (?kept @ [c]) else ?kept @ [c])"
    unfolding ex by simp
  show "\<not> canRedo (fst (execute c f (h, s)))"
    unfolding ex using len by (auto simp: canRedo_def maxHistory_def)
qed

text \<open>
  C6.  For every history reached through the public methods, \<open>execute\<close> keeps the
  commands up to and including the cursor, appends the new command (dropping the oldest
  entry when the log would exceed \<open>maxHistory\<close>), so every command that was redoable is
  gone, and \<open>canRedo()\<close> is false right after.
\<close>

theorem execute_discards_redo_branch:
  "\<not> canRedo (fst (execute c f (fst (run_history applyFn calls s0), s))) \<and>
   commands (fst (execute c f (fst (run_history applyFn calls s0), s))) =
     (let h = fst (run_history applyFn calls s0);
          kept = take (nat (currentIndex h + 1)) (commands h) @ [c]
      in if length kept > maxHistory then tl kept else kept)"
  using execute_after_undo[OF cursor_ok_run, of c f applyFn calls s0 s]
  by (simp add: Let_def)

theorem execute_discards_redo_branch_witness:
  "canRedo (fst (run_history applyFn_editor [Execute add_fx1, Execute toggle_fx1, Undo] state0)) \<and>
   commands (fst (run_history applyFn_editor [Execute add_fx1, Execute toggle_fx1, Undo] state0))
     = [add_fx1, toggle_fx1] \<and>
   \<not> canRedo (fst (execute add_layer_cmd (\<lambda>cmd. applyFn_editor cmd False)
       (fst (run_history applyFn_editor [Execute add_fx1, Execute toggle_fx1, Undo] state0), state0))) \<and>
   commands (fst (execute add_layer_cmd (\<lambda>cmd. applyFn_editor cmd False)
       (fst (run_history applyFn_editor [Execute add_fx1, Execute toggle_fx1, Undo] state0), state0)))
     = [add_fx1, add_layer_cmd]"
proof -
  have run: "fst (run_history applyFn_editor [Execute add_fx1, Execute toggle_fx1, Undo] state0)
      = \<lparr>commands = [add_fx1, toggle_fx1], currentIndex = 0\<rparr>"
    by (simp add: run_history_def new_history_def execute_def undo_def canUndo_def slice0_def
        Let_def maxHistory_def)
  have nr: "\<not> canRedo (fst (execute add_layer_cmd (\<lambda>cmd. applyFn_editor cmd False)
       (fst (run_history applyFn_editor [Execute add_fx1, Execute toggle_fx1, Undo] state0), state0)))"
    and cs: "commands (fst (execute add_layer_cmd (\<lambda>cmd. applyFn_editor cmd False)
       (fst (run_history applyFn_editor [Execute add_fx1, Execute toggle_fx1, Undo] state0), state0)))
      = (let h = fst (run_history applyFn_editor [Execute add_fx1, Execute toggle_fx1, Undo] state0);
          kept = take (nat (currentIndex h + 1)) (commands h) @ [add_layer_cmd]
         in if length kept > maxHistory then tl kept else kept)"
    using execute_discards_redo_branch
            [of add_layer_cmd "\<lambda>cmd. applyFn_editor cmd False" applyFn_editor
                "[Execute add_fx1, Execute toggle_fx1, Undo]" state0 state0]
    by simp_all
  have cs': "(let h = fst (run_history applyFn_editor [Execute add_fx1, Execute toggle_fx1, Undo] state0);
          kept = take (nat (currentIndex h + 1)) (commands h) @ [add_layer_cmd]
         in if length kept > maxHistory then tl kept else kept) = [add_fx1, add_layer_cmd]"
    unfolding run by (simp add: Let_def maxHistory_def)
  have cr: "canRedo (fst (run_history applyFn_editor [Execute add_fx1, Execute toggle_fx1, Undo] state0))"
    unfolding run by (simp add: canRedo_def)
  from nr cs cs' cr run show ?thesis by simp
qed




section \<open>Properties of the pixel algorithms\<close>

lemma pixel_loop_length:
  "pixel_local body \<Longrightarrow> length (pixel_loop body a e n d) = length d"
proof (induction body a e n d rule: pixel_loop.induct)
  case (1 body pixel chunkEnd len4 data)
  then show ?case
    by (subst pixel_loop.simps) (auto simp: pixel_local_def)
qed

lemma pixel_loop_nth:
  assumes "pixel_local body"
  shows "pixel_loop body a e n d ! i =
           (if a \<le> i div 4 \<and> i div 4 < e \<and> 4 * (i div 4) < n then body (i div 4) d ! i else d ! i)"
  using assms
proof (induction body a e n d rule: pixel_loop.induct)
  case (1 body pixel chunkEnd len4 data)
  show ?case
  proof (cases "pixel < chunkEnd \<and> 4 * pixel < len4")
    case False
    then show ?thesis
      by (subst pixel_loop.simps) auto
  next
    case True
    have loc: "length (body pixel data) = length data"
      "\<And>i. i div 4 \<noteq> pixel \<Longrightarrow> body pixel data ! i = data ! i"
      using "1.prems" by (auto simp: pixel_local_def)
    have dep: "body q (body pixel data) ! i = body q data ! i" if "q \<noteq> pixel" "i div 4 = q" for q
    proof -
      have "\<forall>j. j div 4 = q \<longrightarrow> body pixel data ! j = data ! j"
        using loc(2) that by auto
      with "1.prems" loc(1) that show ?thesis
        unfolding pixel_local_def by blast
    qed
    have step: "pixel_loop body pixel chunkEnd len4 data
        = pixel_loop body (pixel + 1) chunkEnd len4 (body pixel data)"
      using True by (subst pixel_loop.simps) simp
    show ?thesis
    proof (cases "i div 4 = pixel")
      case eq: True
      then show ?thesis
        unfolding step "1.IH"[OF True "1.prems"] using True by simp
    next
      case neq: False
      then show ?thesis
        unfolding step "1.IH"[OF True "1.prems"]
        using True loc(2)[of i] dep[of "i div 4"] by auto
    qed
  qed
qed

lemma chunk_loop_length:
  "pixel_local body \<Longrightarrow> length (chunk_loop body s n d) = length d"
proof (induction body s n d rule: chunk_loop.induct)
  case (1 body startPixel len4 data)
  then show ?case
    by (subst chunk_loop.simps) (auto simp: pixel_loop_length)
qed

lemma chunk_loop_nth:
  assumes "pixel_local body"
  shows "chunk_loop body s n d ! i =
           (if s \<le> i div 4 \<and> 4 * (i div 4) < n then body (i div 4) d ! i else d ! i)"
  using assms
proof (induction body s n d rule: chunk_loop.induct)
  case (1 body startPixel len4 data)
  show ?case
  proof (cases "4 * startPixel < len4")
    case False
    then show ?thesis
      by (subst chunk_loop.simps) auto
  next
    case True
    let ?d1 = "pixel_loop body startPixel (startPixel + CHUNK_SIZE) len4 data"
    have step: "chunk_loop body startPixel len4 data
        = chunk_loop body (startPixel + CHUNK_SIZE) len4 ?d1"
      using True by (subst chunk_loop.simps) simp
    have len: "length ?d1 = length data"
      using "1.prems" by (rule pixel_loop_length)
    have same: "?d1 ! j = data ! j" if "startPixel + CHUNK_SIZE \<le> j div 4" for j
      using that by (simp add: pixel_loop_nth[OF "1.prems"])
    have dep: "body (i div 4) ?d1 ! i = body (i div 4) data ! i"
      if "startPixel + CHUNK_SIZE \<le> i div 4"
    proof -
      have "\<forall>j. j div 4 = i div 4 \<longrightarrow> ?d1 ! j = data ! j"
        using same that by auto
      with "1.prems" len show ?thesis
        unfolding pixel_local_def by blast
    qed
    show ?thesis
      unfolding step "1.IH"[OF True "1.prems"]
      using dep by (auto simp: pixel_loop_nth[OF "1.prems"])
  qed
qed


lemma div4_pixel: "(4 * p + k) div 4 = p" if "k < 4" for p k :: nat
  using that by simp

lemma nth_list_update_total:
  "xs[j := v] ! i = (if i = j \<and> j < length xs then v else xs ! i)"
  by (cases "j < length xs") (auto simp: nth_list_update list_update_beyond)

lemma chroma_pixel_local: "pixel_local (chroma_pixel tR tG tB tol)"
  unfolding pixel_local_def
proof (intro conjI allI impI)
  fix p d
  show "length (chroma_pixel tR tG tB tol p d) = length d"
    by (simp add: chroma_pixel_def Let_def)
next
  fix p :: nat and d :: "byte list" and i :: nat
  assume "i div 4 \<noteq> p"
  then have "i \<noteq> p * 4 + 3" by auto
  then show "chroma_pixel tR tG tB tol p d ! i = d ! i"
    by (simp add: chroma_pixel_def Let_def)
next
  fix p :: nat and d d' :: "byte list" and i :: nat
  assume a: "length d = length d' \<and> (\<forall>j. j div 4 = p \<longrightarrow> d ! j = d' ! j) \<and> i div 4 = p"
  then have eq: "d ! (p * 4) = d' ! (p * 4)" "d ! (p * 4 + 1) = d' ! (p * 4 + 1)"
    "d ! (p * 4 + 2) = d' ! (p * 4 + 2)" "d ! i = d' ! i"
    by simp_all
  with a have "rd d (p * 4) = rd d' (p * 4)" "rd d (p * 4 + 1) = rd d' (p * 4 + 1)"
    "rd d (p * 4 + 2) = rd d' (p * 4 + 2)"
    by (simp_all add: rd_def)
  with a eq(4) show "chroma_pixel tR tG tB tol p d ! i = chroma_pixel tR tG tB tol p d' ! i"
    by (simp add: chroma_pixel_def Let_def nth_list_update_total)
qed

lemma composite_pixel_local: "pixel_local (composite_pixel m s b)"
  unfolding pixel_local_def
proof (intro conjI allI impI)
  fix p d
  show "length (composite_pixel m s b p d) = length d"
    by (simp add: composite_pixel_def Let_def)
next
  fix p :: nat and d :: "byte list" and i :: nat
  assume "i div 4 \<noteq> p"
  then have "i \<noteq> p * 4" "i \<noteq> p * 4 + 1" "i \<noteq> p * 4 + 2" "i \<noteq> p * 4 + 3" by auto
  then show "composite_pixel m s b p d ! i = d ! i"
    by (simp add: composite_pixel_def Let_def)
next
  fix p :: nat and d d' :: "byte list" and i :: nat
  assume a: "length d = length d' \<and> (\<forall>j. j div 4 = p \<longrightarrow> d ! j = d' ! j) \<and> i div 4 = p"
  then have "i = p * 4 \<or> i = p * 4 + 1 \<or> i = p * 4 + 2 \<or> i = p * 4 + 3"
    by auto
  moreover have "d ! i = d' ! i" using a by simp
  ultimately show "composite_pixel m s b p d ! i = composite_pixel m s b p d' ! i"
    using a
    by (auto simp: composite_pixel_def Let_def nth_list_update_total)
qed

text \<open>
  C2.  For every pixel \<open>p\<close> of the image data, every target colour string and every
  tolerance, \<open>removeSpecificColor\<close> leaves R, G and B as they were and sets alpha to 0
  exactly when the squared distance \<open>(r - tr)\<^sup>2 + (g - tg)\<^sup>2 + (b - tb)\<^sup>2\<close> to the parsed
  target is at most \<open>tolerance\<^sup>2 * 3\<close>; otherwise alpha, too, is unchanged (also when a
  component of the target does not parse, the distance then being \<open>NaN\<close>).
\<close>

theorem removeSpecificColor_pixel:
  assumes "4 * p + 3 < length data"
  shows "length (removeSpecificColor data targetColor tolerance) = length data \<and>
         removeSpecificColor data targetColor tolerance ! (4 * p) = data ! (4 * p) \<and>
         removeSpecificColor data targetColor tolerance ! (4 * p + 1) = data ! (4 * p + 1) \<and>
         removeSpecificColor data targetColor tolerance ! (4 * p + 2) = data ! (4 * p + 2) \<and>
         removeSpecificColor data targetColor tolerance ! (4 * p + 3) =
           (case parseInt16 (str_slice targetColor 1 3) of None \<Rightarrow> data ! (4 * p + 3) | Some tr \<Rightarrow>
            (case parseInt16 (str_slice targetColor 3 5) of None \<Rightarrow> data ! (4 * p + 3) | Some tg \<Rightarrow>
             (case parseInt16 (str_slice targetColor 5 7) of None \<Rightarrow> data ! (4 * p + 3) | Some tb \<Rightarrow>
               (if (uint (data ! (4 * p)) - tr) ^ 2 + (uint (data ! (4 * p + 1)) - tg) ^ 2
                    + (uint (data ! (4 * p + 2)) - tb) ^ 2 \<le> tolerance ^ 2 * 3
                then 0 else data ! (4 * p + 3)))))"
proof -
  let ?body = "chroma_pixel (parseInt16 (str_slice targetColor 1 3))
      (parseInt16 (str_slice targetColor 3 5)) (parseInt16 (str_slice targetColor 5 7))
      (Some (tolerance * tolerance * 3))"
  have loc: "pixel_local ?body" by (rule chroma_pixel_local)
  have out: "removeSpecificColor data targetColor tolerance = chunk_loop ?body 0 (length data) data"
    by (simp add: removeSpecificColor_def Let_def)
  have nth: "removeSpecificColor data targetColor tolerance ! (4 * p + k) = ?body p data ! (4 * p + k)"
    if "k < 4" for k
    using that assms unfolding out chunk_loop_nth[OF loc] by (simp add: div4_pixel)
  have rds: "rd data (p * 4) = Some (uint (data ! (4 * p)))"
    "rd data (p * 4 + 1) = Some (uint (data ! (4 * p + 1)))"
    "rd data (p * 4 + 2) = Some (uint (data ! (4 * p + 2)))"
    using assms by (simp_all add: rd_def mult.commute)
  have sq: "tolerance * tolerance * 3 = tolerance ^ 2 * 3"
    by (simp add: power2_eq_square)
  have "length (removeSpecificColor data targetColor tolerance) = length data"
    unfolding out by (rule chunk_loop_length[OF loc])
  moreover have "removeSpecificColor data targetColor tolerance ! (4 * p) = data ! (4 * p)"
    using nth[of 0] by (simp add: chroma_pixel_def Let_def mult.commute)
  moreover have "removeSpecificColor data targetColor tolerance ! (4 * p + 1) = data ! (4 * p + 1)"
    using nth[of 1] by (simp add: chroma_pixel_def Let_def mult.commute)
  moreover have "removeSpecificColor data targetColor tolerance ! (4 * p + 2) = data ! (4 * p + 2)"
    using nth[of 2] by (simp add: chroma_pixel_def Let_def mult.commute)
  moreover have "removeSpecificColor data targetColor tolerance ! (4 * p + 3) =
           (case parseInt16 (str_slice targetColor 1 3) of None \<Rightarrow> data ! (4 * p + 3) | Some tr \<Rightarrow>
            (case parseInt16 (str_slice targetColor 3 5) of None \<Rightarrow> data ! (4 * p + 3) | Some tg \<Rightarrow>
             (case parseInt16 (str_slice targetColor 5 7) of None \<Rightarrow> data ! (4 * p + 3) | Some tb \<Rightarrow>
               (if (uint (data ! (4 * p)) - tr) ^ 2 + (uint (data ! (4 * p + 1)) - tg) ^ 2
                    + (uint (data ! (4 * p + 2)) - tb) ^ 2 \<le> tolerance ^ 2 * 3
                then 0 else data ! (4 * p + 3)))))"
    unfolding nth[of 3, simplified] chroma_pixel_def Let_def rds sq
    using assms
    by (simp add: nsub_def nadd_def nsquare_def nle_def mult.commute split: option.splits)
  ultimately show ?thesis by blast
qed


lemma parse_green:
  "parseInt16 (str_slice ''#00FF00'' 1 3) = Some 0"
  "parseInt16 (str_slice ''#00FF00'' 3 5) = Some 255"
  "parseInt16 (str_slice ''#00FF00'' 5 7) = Some 0"
  by (simp_all add: parseInt16_def str_slice_def isWhiteSpace_def hexDigit_def Let_def)

theorem removeSpecificColor_pixel_witness:
  "removeSpecificColor [0, 255, 0, 255, 1, 255, 0, 255] ''#00FF00'' 0 ! 3 = 0 \<and>
   removeSpecificColor [0, 255, 0, 255, 1, 255, 0, 255] ''#00FF00'' 0 ! 7 = 255 \<and>
   removeSpecificColor [0, 255, 0, 255, 1, 255, 0, 255] ''#00FF00'' 0 ! 4 = 1 \<and>
   removeSpecificColor [5, 250, 3, 255] ''#00FF00'' 10 ! 3 = 0 \<and>
   length (removeSpecificColor [5, 250, 3, 255] ''#00FF00'' 10) = 4"
  using removeSpecificColor_pixel [of 0 "[0, 255, 0, 255, 1, 255, 0, 255]" "''#00FF00''" 0]
        removeSpecificColor_pixel [of 1 "[0, 255, 0, 255, 1, 255, 0, 255]" "''#00FF00''" 0]
        removeSpecificColor_pixel [of 0 "[5, 250, 3, 255]" "''#00FF00''" 10]
  unfolding parse_green option.case by simp

text \<open>
  C3.  For every pixel position \<open>p\<close> inside the mask and the image, the composited pixel
  takes R, G and B from the original when the mask's alpha there is strictly above 128 and
  from the blurred copy otherwise, and its alpha is 255 in both cases.
\<close>

theorem blurBackgroundOnly_pixel:
  assumes "4 * p + 3 < length maskData" and "4 * p + 3 < length sharpData"
    and "length blurredData = length sharpData"
  shows "blurBackgroundOnly maskData sharpData blurredData ! (4 * p) =
           (if uint (maskData ! (4 * p + 3)) > 128 then sharpData else blurredData) ! (4 * p) \<and>
         blurBackgroundOnly maskData sharpData blurredData ! (4 * p + 1) =
           (if uint (maskData ! (4 * p + 3)) > 128 then sharpData else blurredData) ! (4 * p + 1) \<and>
         blurBackgroundOnly maskData sharpData blurredData ! (4 * p + 2) =
           (if uint (maskData ! (4 * p + 3)) > 128 then sharpData else blurredData) ! (4 * p + 2) \<and>
         blurBackgroundOnly maskData sharpData blurredData ! (4 * p + 3) = 255 \<and>
         length (blurBackgroundOnly maskData sharpData blurredData) = length sharpData"
proof -
  let ?body = "composite_pixel maskData sharpData blurredData"
  let ?final = "replicate (length sharpData) (0 :: byte)"
  have loc: "pixel_local ?body" by (rule composite_pixel_local)
  have nth: "blurBackgroundOnly maskData sharpData blurredData ! (4 * p + k) = ?body p ?final ! (4 * p + k)"
    if "k < 4" for k
    using that assms(1) unfolding blurBackgroundOnly_def chunk_loop_nth[OF loc]
    by (simp add: div4_pixel)
  have alpha: "ngt (rd maskData (p * 4 + 3)) (Some 128) \<longleftrightarrow> uint (maskData ! (4 * p + 3)) > 128"
    using assms(1) by (simp add: ngt_def rd_def mult.commute)
  have "blurBackgroundOnly maskData sharpData blurredData ! (4 * p) =
           (if uint (maskData ! (4 * p + 3)) > 128 then sharpData else blurredData) ! (4 * p)"
    using nth[of 0] assms alpha
    by (simp add: composite_pixel_def Let_def rd_store_def nth_list_update_total mult.commute)
  moreover have "blurBackgroundOnly maskData sharpData blurredData ! (4 * p + 1) =
           (if uint (maskData ! (4 * p + 3)) > 128 then sharpData else blurredData) ! (4 * p + 1)"
    using nth[of 1] assms alpha
    by (simp add: composite_pixel_def Let_def rd_store_def nth_list_update_total mult.commute)
  moreover have "blurBackgroundOnly maskData sharpData blurredData ! (4 * p + 2) =
           (if uint (maskData ! (4 * p + 3)) > 128 then sharpData else blurredData) ! (4 * p + 2)"
    using nth[of 2] assms alpha
    by (simp add: composite_pixel_def Let_def rd_store_def nth_list_update_total mult.commute)
  moreover have "blurBackgroundOnly maskData sharpData blurredData ! (4 * p + 3) = 255"
    using nth[of 3] assms alpha
    by (simp add: composite_pixel_def Let_def rd_store_def nth_list_update_total mult.commute)
  moreover have "length (blurBackgroundOnly maskData sharpData blurredData) = length sharpData"
    unfolding blurBackgroundOnly_def by (simp add: chunk_loop_length[OF loc])
  ultimately show ?thesis by blast
qed

theorem blurBackgroundOnly_pixel_witness:
  "blurBackgroundOnly [0, 0, 0, 129, 0, 0, 0, 128] [10, 20, 30, 40, 50, 60, 70, 80]
       [11, 21, 31, 41, 51, 61, 71, 81] ! 0 = 10 \<and>
   blurBackgroundOnly [0, 0, 0, 129, 0, 0, 0, 128] [10, 20, 30, 40, 50, 60, 70, 80]
       [11, 21, 31, 41, 51, 61, 71, 81] ! 3 = 255 \<and>
   blurBackgroundOnly [0, 0, 0, 129, 0, 0, 0, 128] [10, 20, 30, 40, 50, 60, 70, 80]
       [11, 21, 31, 41, 51, 61, 71, 81] ! 4 = 51 \<and>
   blurBackgroundOnly [0, 0, 0, 129, 0, 0, 0, 128] [10, 20, 30, 40, 50, 60, 70, 80]
       [11, 21, 31, 41, 51, 61, 71, 81] ! 7 = 255"
  using blurBackgroundOnly_pixel [of 0 "[0, 0, 0, 129, 0, 0, 0, 128]"
          "[10, 20, 30, 40, 50, 60, 70, 80]" "[11, 21, 31, 41, 51, 61, 71, 81]"]
        blurBackgroundOnly_pixel [of 1 "[0, 0, 0, 129, 0, 0, 0, 128]"
          "[10, 20, 30, 40, 50, 60, 70, 80]" "[11, 21, 31, 41, 51, 61, 71, 81]"]
  by simp


section \<open>Properties of the worker pool\<close>

lemma processNext_workers_length [simp]: "length (workers (processNext p)) = length (workers p)"
  by (simp add: processNext_def split: option.splits list.splits)

lemma processNext_workers_Nil [simp]: "workers (processNext p) = [] \<longleftrightarrow> workers p = []"
  using processNext_workers_length[of p] by (simp only: length_0_conv[symmetric])

lemma processNext_initialized [simp]: "initialized (processNext p) = initialized p"
  by (simp add: processNext_def split: option.splits list.splits)

lemma slots_ok_processNext: "slots_ok (processNext p) = slots_ok p"
  by (simp add: slots_ok_def)

lemma slots_ok_step: "slots_ok p \<Longrightarrow> slots_ok (step e p)"
proof (cases e)
  case (AddJob job)
  assume "slots_ok p"
  then have "slots_ok ((init p)\<lparr>queue := queue (init p) @ [job]\<rparr>)"
    by (simp add: slots_ok_def init_def)
  with AddJob show ?thesis
    by (simp add: addJob_def slots_ok_processNext)
next
  case (CancelJob ident)
  assume "slots_ok p"
  with CancelJob show ?thesis
    by (auto simp: cancelJob_def Let_def slots_ok_def split: option.splits)
next
  case (Message workerId response)
  assume "slots_ok p"
  with Message show ?thesis
    by (auto simp: handleMessage_def releaseWorker_def slots_ok_def
        split: option.splits WorkerResponse.splits)
next
  case (ReadDone k ok)
  assume "slots_ok p"
  with ReadDone show ?thesis
    by (auto simp: read_done_def releaseWorker_def Let_def slots_ok_def)
qed

lemma slots_ok_run: "slots_ok p \<Longrightarrow> slots_ok (run events p)"
  unfolding run_def by (induction events arbitrary: p) (simp_all add: slots_ok_step)

lemma slots_ok_new: "slots_ok new_pool"
  by (simp add: slots_ok_def new_pool_def)

lemma workers_bound: "length (workers (run events new_pool)) \<le> MAX_CONCURRENCY"
  using slots_ok_run[OF slots_ok_new, of events]
  by (auto simp: slots_ok_def split: if_splits)

lemma findIndex_None: "findIndex P xs = None \<longleftrightarrow> (\<forall>x \<in> set xs. \<not> P x)"
  by (induction xs) auto

lemma processNext_all_busy: "\<forall>w \<in> set (workers p). busy w \<Longrightarrow> processNext p = p"
  by (simp add: processNext_def findIndex_None[THEN iffD2])

lemma addJob_all_busy:
  assumes "\<forall>w \<in> set (workers p). busy w" and "initialized p"
  shows "step (AddJob job) p = p\<lparr>queue := queue p @ [job]\<rparr>"
  using assms by (simp add: addJob_def init_def processNext_all_busy)

lemma run_snoc: "run (events @ [e]) p = step e (run events p)"
  by (simp add: run_def)

lemma addJobs_state:
  assumes "jobs \<noteq> []"
  shows "initialized (run (map AddJob jobs) new_pool) \<and>
         queue (run (map AddJob jobs) new_pool) = drop 2 jobs \<and>
         slot_view (run (map AddJob jobs) new_pool) =
           map (\<lambda>k. if k < length jobs then (True, Some (job_id (jobs ! k))) else (False, None)) [0, 1]"
  using assms
proof (induction jobs rule: rev_nonempty_induct)
  case (single j)
  show ?case
    by (simp add: run_def new_pool_def addJob_def init_def processNext_def MAX_CONCURRENCY_def
        slot_view_def upt_rec)
next
  case (snoc j jobs)
  let ?p = "run (map AddJob jobs) new_pool"
  from snoc.IH have ini: "initialized ?p" and q: "queue ?p = drop 2 jobs"
    and sv: "slot_view ?p =
      map (\<lambda>k. if k < length jobs then (True, Some (job_id (jobs ! k))) else (False, None)) [0, 1]"
    by simp_all
  from sv obtain w0 w1 where ws: "workers ?p = [w0, w1]"
    and w0: "busy w0" "currentJobId w0 = Some (job_id (jobs ! 0))"
    and w1: "busy w1 \<longleftrightarrow> 1 < length jobs"
      "currentJobId w1 = (if 1 < length jobs then Some (job_id (jobs ! 1)) else None)"
    using snoc.hyps by (auto simp: slot_view_def map_eq_Cons_conv split: if_splits)
  have run: "run (map AddJob (jobs @ [j])) new_pool = addJob j ?p"
    by (simp add: run_snoc)
  show ?case
  proof (cases "1 < length jobs")
    case True
    then have "addJob j ?p = ?p\<lparr>queue := queue ?p @ [j]\<rparr>"
      using addJob_all_busy[of ?p j] ws w0 w1 ini by simp
    with True ini q sv snoc.hyps show ?thesis
      unfolding run by (simp add: slot_view_def nth_append)
  next
    case False
    with snoc.hyps have len: "length jobs = 1" by (cases jobs) auto
    then have "queue ?p = []" using q by simp
    with len ws w0 w1 ini show ?thesis
      unfolding run
      by (simp add: addJob_def init_def processNext_def slot_view_def nth_append)
  qed
qed

lemma findIndex_Some: "findIndex P xs = Some i \<Longrightarrow> i < length xs \<and> P (xs ! i)"
  by (induction xs arbitrary: i) (auto split: if_splits)

lemma slots_update:
  assumes "\<forall>w \<in> set ws. currentJobId w \<noteq> Some ident" and "currentJobId w' \<noteq> Some ident"
  shows "\<forall>w \<in> set (ws[i := w']). currentJobId w \<noteq> Some ident"
  using assms set_update_subset_insert[of ws i w'] by auto

lemma processNext_cases:
  "processNext p = p \<or>
   (\<exists>i job rest. findIndex (\<lambda>w. \<not> busy w) (workers p) = Some i \<and> queue p = job # rest \<and>
      processNext p =
        p\<lparr>queue := rest,
          workers := (workers p)[i := (workers p ! i)\<lparr>busy := True, currentJobId := Some (job_id job)\<rparr>],
          activeJobs := AList.update (job_id job) job (activeJobs p),
          trace := trace p @ [OnStart job],
          pendingReads := pendingReads p @ [(i, job)]\<rparr>)"
proof (cases "findIndex (\<lambda>w. \<not> busy w) (workers p)")
  case None
  then show ?thesis by (simp add: processNext_def)
next
  case (Some i)
  show ?thesis
  proof (cases "queue p")
    case Nil
    with Some show ?thesis by (simp add: processNext_def)
  next
    case (Cons job rest)
    with Some have "processNext p =
        p\<lparr>queue := rest,
          workers := (workers p)[i := (workers p ! i)\<lparr>busy := True, currentJobId := Some (job_id job)\<rparr>],
          activeJobs := AList.update (job_id job) job (activeJobs p),
          trace := trace p @ [OnStart job],
          pendingReads := pendingReads p @ [(i, job)]\<rparr>"
      by (simp add: processNext_def)
    with Some Cons show ?thesis by blast
  qed
qed

lemma stuck_processNext:
  assumes "stuck ident p"
  shows "stuck ident (processNext p)"
proof -
  from processNext_cases[of p] show ?thesis
  proof (elim disjE exE conjE)
    assume "processNext p = p"
    with assms show ?thesis by simp
  next
    fix i job rest
    assume q: "queue p = job # rest"
      and pn: "processNext p =
        p\<lparr>queue := rest,
          workers := (workers p)[i := (workers p ! i)\<lparr>busy := True, currentJobId := Some (job_id job)\<rparr>],
          activeJobs := AList.update (job_id job) job (activeJobs p),
          trace := trace p @ [OnStart job],
          pendingReads := pendingReads p @ [(i, job)]\<rparr>"
    from assms q have ne: "job_id job \<noteq> ident" and rest: "ident \<notin> job_id ` set rest"
      and ws: "\<forall>w \<in> set (workers p). currentJobId w \<noteq> Some ident"
      and act: "ident \<in> fst ` set (activeJobs p)"
      by (auto simp: stuck_def unbound_def)
    have "currentJobId ((workers p ! i)\<lparr>busy := True, currentJobId := Some (job_id job)\<rparr>) \<noteq> Some ident"
      using ne by simp
    from slots_update[OF ws this]
    have ws': "\<forall>w \<in> set ((workers p)[i := (workers p ! i)\<lparr>busy := True, currentJobId := Some (job_id job)\<rparr>]).
        currentJobId w \<noteq> Some ident" .
    have act': "ident \<in> fst ` set (AList.update (job_id job) job (activeJobs p))"
      using act by (simp add: dom_update)
    show ?thesis
      unfolding pn stuck_def unbound_def using rest ws' act' by simp
  qed
qed

lemma stuck_releaseWorker:
  assumes "stuck ident p"
  shows "stuck ident (releaseWorker i p)"
proof -
  from assms have ws: "\<forall>w \<in> set (workers p). currentJobId w \<noteq> Some ident"
    by (simp add: stuck_def unbound_def)
  have "currentJobId ((workers p ! i)\<lparr>busy := False, currentJobId := None\<rparr>) \<noteq> Some ident"
    by simp
  from slots_update[OF ws this] assms
  have "stuck ident (p\<lparr>workers := (workers p)[i := (workers p ! i)\<lparr>busy := False, currentJobId := None\<rparr>]\<rparr>)"
    by (simp add: stuck_def unbound_def)
  then show ?thesis
    unfolding releaseWorker_def by (rule stuck_processNext)
qed


lemma stuck_fields:
  "stuck ident (p\<lparr>trace := tr\<rparr>) = stuck ident p"
  "stuck ident (p\<lparr>pendingReads := pr\<rparr>) = stuck ident p"
  "stuck ident (p\<lparr>terminated := te\<rparr>) = stuck ident p"
  "stuck ident (p\<lparr>created := cr\<rparr>) = stuck ident p"
  "stuck ident (p\<lparr>initialized := ini\<rparr>) = stuck ident p"
  by (simp_all add: stuck_def unbound_def)

lemma stuck_set_slot:
  assumes "stuck ident p" and "currentJobId w' \<noteq> Some ident"
  shows "stuck ident (p\<lparr>workers := (workers p)[i := w']\<rparr>)"
proof -
  from assms(1) have ws: "\<forall>w \<in> set (workers p). currentJobId w \<noteq> Some ident"
    by (simp add: stuck_def unbound_def)
  from slots_update[OF ws assms(2)] assms(1) show ?thesis
    by (simp add: stuck_def unbound_def)
qed

lemma keys_delete: "fst ` set (AList.delete k al) = fst ` set al - {k}"
  by (auto simp: AList.delete_eq)

lemma stuck_delete:
  assumes "stuck ident p" and "k \<noteq> ident"
  shows "stuck ident (p\<lparr>activeJobs := AList.delete k (activeJobs p)\<rparr>)"
  using assms by (simp add: stuck_def unbound_def keys_delete)

lemma stuck_slot_id:
  assumes "stuck ident p" and "i < length (workers p)"
  shows "currentJobId (workers p ! i) \<noteq> Some ident"
  using assms nth_mem[of i "workers p"] by (auto simp: stuck_def unbound_def)

lemma stuck_addJob:
  assumes "stuck ident p" and "job_id job \<noteq> ident"
  shows "stuck ident (addJob job p)"
proof -
  have "stuck ident (init p)"
    using assms(1) by (auto simp: init_def stuck_def unbound_def)
  with assms(2) have "stuck ident ((init p)\<lparr>queue := queue (init p) @ [job]\<rparr>)"
    by (simp add: stuck_def unbound_def)
  then show ?thesis
    unfolding addJob_def by (rule stuck_processNext)
qed

lemma stuck_cancelJob:
  assumes "stuck ident p" and "ident' \<noteq> ident"
  shows "stuck ident (cancelJob ident' p)"
proof -
  let ?p1 = "p\<lparr>queue := filter (\<lambda>job. job_id job \<noteq> ident') (queue p)\<rparr>"
  let ?p2 = "?p1\<lparr>activeJobs := AList.delete ident' (activeJobs ?p1)\<rparr>"
  have s1: "stuck ident ?p1"
    using assms(1) by (auto simp: stuck_def unbound_def)
  have s2: "stuck ident ?p2"
    using s1 assms(2) by (rule stuck_delete)
  show ?thesis
  proof (cases "map_of (activeJobs ?p1) ident' \<noteq> None")
    case False
    with s1 show ?thesis by (simp add: cancelJob_def Let_def)
  next
    case True
    show ?thesis
    proof (cases "findIndex (\<lambda>w. currentJobId w = Some ident') (workers ?p2)")
      case None
      with True s2 show ?thesis by (simp add: cancelJob_def Let_def)
    next
      case (Some i)
      let ?w = "(workers ?p2 ! i)\<lparr>worker := new_worker (created ?p2), busy := False, currentJobId := None\<rparr>"
      let ?p3 = "?p2\<lparr>terminated := terminated ?p2 @ [worker (workers ?p2 ! i)],
                      created := created ?p2 + 1,
                      workers := (workers ?p2)[i := ?w]\<rparr>"
      have "stuck ident (?p2\<lparr>workers := (workers ?p2)[i := ?w]\<rparr>)"
        by (rule stuck_set_slot[OF s2]) simp
      then have "stuck ident ?p3"
        by (simp add: stuck_def unbound_def)
      then have "stuck ident (processNext ?p3)"
        by (rule stuck_processNext)
      moreover have "cancelJob ident' p = processNext ?p3"
        using True Some by (simp add: cancelJob_def Let_def)
      ultimately show ?thesis by simp
    qed
  qed
qed

lemma stuck_handleMessage:
  assumes "stuck ident p"
  shows "stuck ident (handleMessage workerId response p)"
proof (cases "findIndex (\<lambda>w. wid w = workerId) (workers p)")
  case None
  with assms show ?thesis by (simp add: handleMessage_def)
next
  case (Some i)
  then have i: "i < length (workers p)" by (auto dest: findIndex_Some)
  show ?thesis
  proof (cases "currentJobId (workers p ! i)")
    case None
    with Some assms show ?thesis by (simp add: handleMessage_def)
  next
    case jid: (Some jobId)
    from stuck_slot_id[OF assms i] jid have ne: "jobId \<noteq> ident" by simp
    show ?thesis
    proof (cases "jobId = [] \<or> map_of (activeJobs p) jobId = None")
      case True
      with Some jid assms show ?thesis by (auto simp: handleMessage_def)
    next
      case False
      then obtain job where job: "map_of (activeJobs p) jobId = Some job" and nonempty: "jobId \<noteq> []"
        by auto
      have rel: "stuck ident (releaseWorker i (p\<lparr>trace := tr, activeJobs := AList.delete jobId (activeJobs p)\<rparr>))" for tr
      proof (rule stuck_releaseWorker)
        have "stuck ident (p\<lparr>trace := tr\<rparr>)" using assms by (simp add: stuck_fields)
        from stuck_delete[OF this ne]
        show "stuck ident (p\<lparr>trace := tr, activeJobs := AList.delete jobId (activeJobs p)\<rparr>)"
          by simp
      qed
      show ?thesis
      proof (cases response)
        case Ready
        with Some jid job nonempty assms show ?thesis by (simp add: handleMessage_def)
      next
        case (Progress percent stage)
        with Some jid job nonempty assms show ?thesis
          by (simp add: handleMessage_def stuck_fields)
      next
        case (Complete resultBlob)
        with Some jid job nonempty rel show ?thesis by (simp add: handleMessage_def)
      next
        case (Error message retryable)
        with Some jid job nonempty rel show ?thesis by (simp add: handleMessage_def)
      qed
    qed
  qed
qed

lemma stuck_read_done:
  assumes "stuck ident p"
  shows "stuck ident (read_done k ok p)"
proof (cases "k < length (pendingReads p)")
  case False
  with assms show ?thesis by (simp add: read_done_def)
next
  case True
  let ?i = "fst (pendingReads p ! k)"
  let ?job = "snd (pendingReads p ! k)"
  let ?p1 = "p\<lparr>pendingReads := take k (pendingReads p) @ drop (Suc k) (pendingReads p)\<rparr>"
  have s1: "stuck ident ?p1" using assms by (simp add: stuck_fields)
  show ?thesis
  proof (cases ok)
    case False
    have "stuck ident (releaseWorker ?i (?p1\<lparr>trace := trace ?p1 @ [OnError ?job ''Failed to read file'']\<rparr>))"
      by (rule stuck_releaseWorker) (simp add: stuck_fields assms)
    with True False show ?thesis by (simp add: read_done_def Let_def)
  next
    case ok: True
    let ?w = "(workers ?p1 ! ?i)\<lparr>worker := (worker (workers ?p1 ! ?i))
                           \<lparr>inbox := inbox (worker (workers ?p1 ! ?i)) @ [Process (job_file ?job)]\<rparr>\<rparr>"
    have "stuck ident (?p1\<lparr>workers := (workers ?p1)[?i := ?w]\<rparr>)"
    proof (cases "?i < length (workers ?p1)")
      case True
      from stuck_slot_id[OF s1 True] have "currentJobId ?w \<noteq> Some ident" by simp
      from stuck_set_slot[OF s1 this] show ?thesis .
    next
      case False
      then have "(workers ?p1)[?i := ?w] = workers ?p1" by (simp add: list_update_beyond)
      with s1 show ?thesis by (simp add: stuck_def unbound_def)
    qed
    with True ok show ?thesis by (simp add: read_done_def Let_def)
  qed
qed

lemma stuck_step:
  assumes "stuck ident p" and "\<not> mentions ident e"
  shows "stuck ident (step e p)"
  using assms
  by (cases e) (simp_all add: stuck_addJob stuck_cancelJob stuck_handleMessage stuck_read_done)

lemma stuck_run:
  "stuck ident p \<Longrightarrow> \<forall>e \<in> set events. \<not> mentions ident e \<Longrightarrow> stuck ident (run events p)"
  unfolding run_def by (induction events arbitrary: p) (simp_all add: stuck_step)

lemma cancelJob_removes_job:
  "ident \<notin> job_id ` set (queue (cancelJob ident p)) \<and>
   map_of (activeJobs (cancelJob ident p)) ident = None"
proof -
  have pn: "ident \<notin> job_id ` set (queue (processNext q)) \<and>
            map_of (activeJobs (processNext q)) ident = None"
    if q: "ident \<notin> job_id ` set (queue q)" and a: "map_of (activeJobs q) ident = None" for q
  proof -
    from processNext_cases[of q] show ?thesis
    proof (elim disjE exE conjE)
      assume "processNext q = q"
      with q a show ?thesis by simp
    next
      fix i job rest
      assume qq: "queue q = job # rest"
        and pn: "processNext q =
          q\<lparr>queue := rest,
            workers := (workers q)[i := (workers q ! i)\<lparr>busy := True, currentJobId := Some (job_id job)\<rparr>],
            activeJobs := AList.update (job_id job) job (activeJobs q),
            trace := trace q @ [OnStart job],
            pendingReads := pendingReads q @ [(i, job)]\<rparr>"
      from q qq have "job_id job \<noteq> ident" "ident \<notin> job_id ` set rest" by auto
      with a show ?thesis unfolding pn by (simp add: update_conv')
    qed
  qed
  let ?p1 = "p\<lparr>queue := filter (\<lambda>job. job_id job \<noteq> ident) (queue p)\<rparr>"
  let ?p2 = "?p1\<lparr>activeJobs := AList.delete ident (activeJobs ?p1)\<rparr>"
  have q1: "ident \<notin> job_id ` set (queue ?p1)" by auto
  show ?thesis
  proof (cases "map_of (activeJobs ?p1) ident \<noteq> None")
    case False
    with q1 show ?thesis by (simp add: cancelJob_def Let_def)
  next
    case True
    have q2: "ident \<notin> job_id ` set (queue ?p2)" by auto
    have a2: "map_of (activeJobs ?p2) ident = None" by (simp add: delete_conv')
    show ?thesis
    proof (cases "findIndex (\<lambda>w. currentJobId w = Some ident) (workers ?p2)")
      case None
      with True q2 a2 show ?thesis by (simp add: cancelJob_def Let_def)
    next
      case (Some i)
      let ?p3 = "?p2\<lparr>terminated := terminated ?p2 @ [worker (workers ?p2 ! i)],
                      created := created ?p2 + 1,
                      workers := (workers ?p2)[i := (workers ?p2 ! i)
                        \<lparr>worker := new_worker (created ?p2), busy := False,
                         currentJobId := None\<rparr>]\<rparr>"
      have "ident \<notin> job_id ` set (queue ?p3)" "map_of (activeJobs ?p3) ident = None"
        using a2 by auto
      from pn[OF this] have "ident \<notin> job_id ` set (queue (processNext ?p3)) \<and>
            map_of (activeJobs (processNext ?p3)) ident = None" .
      moreover have "cancelJob ident p = processNext ?p3"
        using True Some by (simp add: cancelJob_def Let_def)
      ultimately show ?thesis by simp
    qed
  qed
qed

lemmas pool_eval =
  run_def new_pool_def addJob_def init_def processNext_def cancelJob_def read_done_def
  releaseWorker_def handleMessage_def MAX_CONCURRENCY_def mk_job_def Let_def new_worker_def
  upt_rec job_a_def job_b_def job_c_def


lemma run_append: "run (es @ es') p = run es' (run es p)"
  by (simp add: run_def)

lemma read_failure_step:
  assumes k: "k < length (pendingReads p)" and pr: "pendingReads p ! k = (i, job)"
    and i: "i < length (workers p)"
  shows "trace (step (ReadDone k False) p) =
           trace p @ OnError job ''Failed to read file'' #
             (case queue p of [] \<Rightarrow> [] | nextJob # rest \<Rightarrow> [OnStart nextJob])"
    and "queue p = [] \<Longrightarrow> \<not> busy (workers (step (ReadDone k False) p) ! i) \<and>
           currentJobId (workers (step (ReadDone k False) p) ! i) = None"
    and "fst ` set (activeJobs p) \<subseteq> fst ` set (activeJobs (step (ReadDone k False) p))"
proof -
  let ?x = "p\<lparr>pendingReads := take k (pendingReads p) @ drop (Suc k) (pendingReads p),
              trace := trace p @ [OnError job ''Failed to read file''],
              workers := (workers p)[i := (workers p ! i)\<lparr>busy := False, currentJobId := None\<rparr>]\<rparr>"
  have st: "step (ReadDone k False) p = processNext ?x"
    using k pr by (simp add: read_done_def releaseWorker_def Let_def)
  have "\<not> busy (workers ?x ! i)" "workers ?x ! i \<in> set (workers ?x)"
    using i by (simp_all add: set_update_memI)
  then have "findIndex (\<lambda>w. \<not> busy w) (workers ?x) \<noteq> None"
    unfolding findIndex_None by blast
  then obtain j where j: "findIndex (\<lambda>w. \<not> busy w) (workers ?x) = Some j"
    by auto
  show "trace (step (ReadDone k False) p) =
           trace p @ OnError job ''Failed to read file'' #
             (case queue p of [] \<Rightarrow> [] | nextJob # rest \<Rightarrow> [OnStart nextJob])"
    unfolding st processNext_def j by (simp split: list.split)
  show "\<not> busy (workers (step (ReadDone k False) p) ! i) \<and>
           currentJobId (workers (step (ReadDone k False) p) ! i) = None" if "queue p = []"
    unfolding st processNext_def j using that i by simp
  show "fst ` set (activeJobs p) \<subseteq> fst ` set (activeJobs (step (ReadDone k False) p))"
    unfolding st processNext_def j by (auto simp: dom_update split: list.split)
qed

text \<open>
  C1 says that no more than \<open>MAX_CONCURRENCY\<close> jobs are ever in flight.  The \<open>catch\<close>
  block of \<open>processNext\<close> releases the slot it was started with without looking whether
  the slot is still its job's: after \<open>cancelJob\<close> of a job whose file is still being read
  the slot goes to the next job, and when the cancelled job's read then fails the slot is
  released a second time and taken by a further job.  Three jobs are then started and
  unfinished, two of them posted to the same worker.
\<close>

theorem stale_release_exceeds_concurrency:
  "inFlight (run [AddJob job_a, AddJob job_b, CancelJob ''a'', AddJob job_c, ReadDone 0 False,
         AddJob job_d, ReadDone 0 True, ReadDone 0 True, ReadDone 0 True] new_pool)
     = [job_b, job_c, job_d] \<and>
   MAX_CONCURRENCY < length (inFlight (run [AddJob job_a, AddJob job_b, CancelJob ''a'',
         AddJob job_c, ReadDone 0 False, AddJob job_d, ReadDone 0 True, ReadDone 0 True,
         ReadDone 0 True] new_pool)) \<and>
   map (\<lambda>w. inbox (worker w)) (workers (run [AddJob job_a, AddJob job_b, CancelJob ''a'',
         AddJob job_c, ReadDone 0 False, AddJob job_d, ReadDone 0 True, ReadDone 0 True,
         ReadDone 0 True] new_pool))
     = [[Init, Process (job_file job_c), Process (job_file job_d)],
        [Init, Process (job_file job_b)]] \<and>
   slot_view (run [AddJob job_a, AddJob job_b, CancelJob ''a'', AddJob job_c, ReadDone 0 False,
         AddJob job_d, ReadDone 0 True, ReadDone 0 True, ReadDone 0 True] new_pool)
     = [(True, Some ''d''), (True, Some ''b'')] \<and>
   queue (run [AddJob job_a, AddJob job_b, CancelJob ''a'', AddJob job_c, ReadDone 0 False,
         AddJob job_d, ReadDone 0 True, ReadDone 0 True, ReadDone 0 True] new_pool) = [] \<and>
   inFlight (run [AddJob job_a, AddJob job_b, CancelJob ''a'', AddJob job_c] new_pool)
     = [job_b, job_c]"
proof -
  let ?p = "run [AddJob job_a, AddJob job_b, CancelJob ''a'', AddJob job_c, ReadDone 0 False,
         AddJob job_d, ReadDone 0 True, ReadDone 0 True, ReadDone 0 True] new_pool"
  have tr: "trace ?p = [OnStart job_a, OnStart job_b, OnStart job_c,
      OnError job_a ''Failed to read file'', OnStart job_d]"
    and act: "activeJobs ?p = [(''b'', job_b), (''c'', job_c), (''d'', job_d)]"
    and ws: "map (\<lambda>w. inbox (worker w)) (workers ?p)
     = [[Init, Process (job_file job_c), Process (job_file job_d)],
        [Init, Process (job_file job_b)]]"
    and sv: "slot_view ?p = [(True, Some ''d''), (True, Some ''b'')]"
    and q: "queue ?p = []"
    by (simp_all add: pool_eval job_d_def slot_view_def)
  have ne: "job_a \<noteq> job_b" "job_a \<noteq> job_c" "job_a \<noteq> job_d" "job_b \<noteq> job_c"
    "job_b \<noteq> job_d" "job_c \<noteq> job_d"
    by (simp_all add: job_a_def job_b_def job_c_def job_d_def mk_job_def)
  have ids: "job_id job_a = ''a''" "job_id job_b = ''b''" "job_id job_c = ''c''"
    "job_id job_d = ''d''"
    by (simp_all add: job_a_def job_b_def job_c_def job_d_def mk_job_def)
  have fl: "inFlight ?p = [job_b, job_c, job_d]"
    unfolding inFlight_def tr act using ne ne[symmetric] by (simp add: ids)
  have tr4: "trace (run [AddJob job_a, AddJob job_b, CancelJob ''a'', AddJob job_c] new_pool)
      = [OnStart job_a, OnStart job_b, OnStart job_c]"
    and act4: "activeJobs (run [AddJob job_a, AddJob job_b, CancelJob ''a'', AddJob job_c] new_pool)
      = [(''b'', job_b), (''c'', job_c)]"
    by (simp_all add: pool_eval)
  have fl4: "inFlight (run [AddJob job_a, AddJob job_b, CancelJob ''a'', AddJob job_c] new_pool)
     = [job_b, job_c]"
    unfolding inFlight_def tr4 act4 using ne ne[symmetric] by (simp add: ids)
  have "MAX_CONCURRENCY < length (inFlight ?p)"
    unfolding fl by (simp add: MAX_CONCURRENCY_def)
  with fl ws sv q fl4 show ?thesis by simp
qed

text \<open>
  C4 says that after \<open>cancelJob(id)\<close> no callback of the cancelled job runs any more and that
  nothing reaches another job through the reset slot.  When the job is cancelled while its
  file is still being read, the job has left the queue and the active map, but the \<open>catch\<close>
  block of \<open>processNext\<close> calls its \<open>onError\<close> once the read fails; and when the read
  succeeds, its bytes are posted to the recreated worker, which by then may belong to the
  next job, so that the result is delivered to that job.
\<close>

theorem cancelled_job_error_callback:
  "''a'' \<notin> job_id ` set (queue (run [AddJob job_a, CancelJob ''a''] new_pool)) \<and>
   map_of (activeJobs (run [AddJob job_a, CancelJob ''a''] new_pool)) ''a'' = None \<and>
   trace (run [AddJob job_a, CancelJob ''a''] new_pool) = [OnStart job_a] \<and>
   trace (run [AddJob job_a, CancelJob ''a'', ReadDone 0 False] new_pool) =
     [OnStart job_a, OnError job_a ''Failed to read file''] \<and>
   slot_view (run [AddJob job_a, CancelJob ''a'', AddJob job_c, ReadDone 0 True] new_pool) =
     [(True, Some ''c''), (False, None)] \<and>
   inbox (worker (workers (run [AddJob job_a, CancelJob ''a'', AddJob job_c, ReadDone 0 True] new_pool) ! 0)) =
     [Init, Process (job_file job_a)] \<and>
   trace (run [AddJob job_a, CancelJob ''a'', AddJob job_c, ReadDone 0 True, Message 0 (Complete ''result of a'')] new_pool) =
     [OnStart job_a, OnStart job_c, OnComplete job_c ''result of a'']"
  by (simp add: pool_eval slot_view_def)

text \<open>
  C10, as the code has it.  When the read of a dispatched job's file fails, \<open>onError\<close> of
  the job is called, its slot is released (and given to the next queued job, if any), and
  no entry leaves the active map.  The job's entry then stays, and \<open>getActiveCount\<close> stays
  positive, through all later events that neither cancel that id nor submit a job with it,
  provided no queued job and no slot carries the id; three failed reads give a count of 3.
\<close>

theorem read_failure_keeps_job_active:
  assumes "k < length (pendingReads p)" and "pendingReads p ! k = (i, job)"
    and "i < length (workers p)"
  shows "trace (step (ReadDone k False) p) =
           trace p @ OnError job ''Failed to read file'' #
             (case queue p of [] \<Rightarrow> [] | nextJob # rest \<Rightarrow> [OnStart nextJob]) \<and>
         (queue p = [] \<longrightarrow> \<not> busy (workers (step (ReadDone k False) p) ! i) \<and>
             currentJobId (workers (step (ReadDone k False) p) ! i) = None) \<and>
         fst ` set (activeJobs p) \<subseteq> fst ` set (activeJobs (step (ReadDone k False) p)) \<and>
         (job_id job \<in> fst ` set (activeJobs p) \<and> unbound (job_id job) (step (ReadDone k False) p) \<and>
            (\<forall>e \<in> set events. \<not> mentions (job_id job) e) \<longrightarrow>
              job_id job \<in> fst ` set (activeJobs (run events (step (ReadDone k False) p))) \<and>
              1 \<le> getActiveCount (run events (step (ReadDone k False) p))) \<and>
         MAX_CONCURRENCY < getActiveCount
           (run [AddJob job_a, ReadDone 0 False, AddJob job_b, ReadDone 0 False,
                 AddJob job_c, ReadDone 0 False] new_pool)"
proof (intro conjI impI)
  note rf = read_failure_step[OF assms]
  show "trace (step (ReadDone k False) p) =
           trace p @ OnError job ''Failed to read file'' #
             (case queue p of [] \<Rightarrow> [] | nextJob # rest \<Rightarrow> [OnStart nextJob])"
    by (rule rf(1))
  show "\<not> busy (workers (step (ReadDone k False) p) ! i)" if "queue p = []"
    using rf(2)[OF that] by simp
  show "currentJobId (workers (step (ReadDone k False) p) ! i) = None" if "queue p = []"
    using rf(2)[OF that] by simp
  show "fst ` set (activeJobs p) \<subseteq> fst ` set (activeJobs (step (ReadDone k False) p))"
    by (rule rf(3))
  assume a: "job_id job \<in> fst ` set (activeJobs p) \<and> unbound (job_id job) (step (ReadDone k False) p) \<and>
            (\<forall>e \<in> set events. \<not> mentions (job_id job) e)"
  with rf(3) have "stuck (job_id job) (step (ReadDone k False) p)"
    by (auto simp: stuck_def)
  from stuck_run[OF this] a
  have s: "stuck (job_id job) (run events (step (ReadDone k False) p))" by blast
  then show in_map: "job_id job \<in> fst ` set (activeJobs (run events (step (ReadDone k False) p)))"
    by (simp add: stuck_def)
  then have "activeJobs (run events (step (ReadDone k False) p)) \<noteq> []" by auto
  then show "1 \<le> getActiveCount (run events (step (ReadDone k False) p))"
    by (cases "activeJobs (run events (step (ReadDone k False) p))") (simp_all add: getActiveCount_def)
next
  show "MAX_CONCURRENCY < getActiveCount
           (run [AddJob job_a, ReadDone 0 False, AddJob job_b, ReadDone 0 False,
                 AddJob job_c, ReadDone 0 False] new_pool)"
    by (simp add: pool_eval getActiveCount_def)
qed

theorem read_failure_keeps_job_active_witness:
  "pendingReads (run [AddJob job_a] new_pool) ! 0 = (0, job_a) \<and>
   trace (run [AddJob job_a, ReadDone 0 False] new_pool) =
     [OnStart job_a, OnError job_a ''Failed to read file''] \<and>
   slot_view (run [AddJob job_a, ReadDone 0 False] new_pool) = [(False, None), (False, None)] \<and>
   map fst (activeJobs (run [AddJob job_a, ReadDone 0 False] new_pool)) = [''a''] \<and>
   1 \<le> getActiveCount (run [AddJob job_a, ReadDone 0 False, AddJob job_b, ReadDone 0 True,
           Message 0 (Complete ''r''), CancelJob ''b''] new_pool) \<and>
   getActiveCount (run [AddJob job_a, ReadDone 0 False, AddJob job_b, ReadDone 0 False,
                 AddJob job_c, ReadDone 0 False] new_pool) = 3"
proof -
  let ?p = "run [AddJob job_a] new_pool"
  let ?events = "[AddJob job_b, ReadDone 0 True, Message 0 (Complete ''r''), CancelJob ''b'']"
  have k: "0 < length (pendingReads ?p)" and pr: "pendingReads ?p ! 0 = (0, job_a)"
    and i: "0 < length (workers ?p)" and q: "queue ?p = []" and tr: "trace ?p = [OnStart job_a]"
    and act: "job_id job_a \<in> fst ` set (activeJobs ?p)"
    by (simp_all add: pool_eval)
  have st: "step (ReadDone 0 False) ?p = run [AddJob job_a, ReadDone 0 False] new_pool"
    by (simp add: run_def)
  have ub: "unbound (job_id job_a) (step (ReadDone 0 False) ?p)"
    unfolding st by (simp add: unbound_def pool_eval)
  have nm: "\<forall>e \<in> set ?events. \<not> mentions (job_id job_a) e"
    by (simp add: job_a_def job_b_def mk_job_def)
  have r: "run ?events (step (ReadDone 0 False) ?p) =
      run [AddJob job_a, ReadDone 0 False, AddJob job_b, ReadDone 0 True,
           Message 0 (Complete ''r''), CancelJob ''b''] new_pool"
    by (simp add: run_def)
  from read_failure_keeps_job_active[OF k pr i, of ?events] act ub nm q
  have 1: "trace (step (ReadDone 0 False) ?p) =
           trace ?p @ OnError job_a ''Failed to read file'' #
             (case queue ?p of [] \<Rightarrow> [] | nextJob # rest \<Rightarrow> [OnStart nextJob])"
    and 2: "\<not> busy (workers (step (ReadDone 0 False) ?p) ! 0)"
    and 3: "1 \<le> getActiveCount (run ?events (step (ReadDone 0 False) ?p))"
    by blast+
  have tr1: "trace (run [AddJob job_a, ReadDone 0 False] new_pool) =
     [OnStart job_a, OnError job_a ''Failed to read file'']"
    using 1 unfolding st q tr by simp
  have 4: "slot_view (run [AddJob job_a, ReadDone 0 False] new_pool) = [(False, None), (False, None)]"
    "map fst (activeJobs (run [AddJob job_a, ReadDone 0 False] new_pool)) = [''a'']"
    "getActiveCount (run [AddJob job_a, ReadDone 0 False, AddJob job_b, ReadDone 0 False,
                 AddJob job_c, ReadDone 0 False] new_pool) = 3"
    by (simp_all add: pool_eval slot_view_def getActiveCount_def)
  from pr tr1 3 4 show ?thesis unfolding r by simp
qed

text \<open>
  C10 as stated fails: \<open>cancelJob\<close> of the failed job, or a completed retry under the same
  id, removes the entry, and \<open>getActiveCount\<close> is 0 again.
\<close>

theorem read_failure_counterexample:
  "getActiveCount (run [AddJob job_a, ReadDone 0 False] new_pool) = 1 \<and>
   getActiveCount (run [AddJob job_a, ReadDone 0 False, CancelJob ''a''] new_pool) = 0 \<and>
   getActiveCount (run [AddJob job_a, ReadDone 0 False, AddJob job_a, ReadDone 0 True,
       Message 0 (Complete ''r'')] new_pool) = 0"
  by (simp add: pool_eval getActiveCount_def)

section \<open>Properties of the filter math and of rendering\<close>

lemma filter_loop_one_pixel:
  "filter_loop body 0 (length [r, g, b, a]) [r, g, b, a] = body 0 [r, g, b, a]"
proof -
  have "filter_loop body 0 4 [r, g, b, a] = filter_loop body 4 4 (body 0 [r, g, b, a])"
    by (subst filter_loop.simps) simp
  also have "\<dots> = body 0 [r, g, b, a]"
    by (subst filter_loop.simps) simp
  finally have "filter_loop body 0 4 [r, g, b, a] = body 0 [r, g, b, a]" .
  moreover have "length [r, g, b, a] = 4" by simp
  ultimately show ?thesis by (simp only:)
qed

lemma filter_temperature_irrelevant:
  "applyFilter (params\<lparr>temperature := t\<rparr>) data = applyFilter params data"
proof -
  have "applyFilter_pixel (params\<lparr>temperature := t\<rparr>) = applyFilter_pixel params"
    by (intro ext) (simp add: applyFilter_pixel_def)
  then show ?thesis by (simp add: applyFilter_def)
qed

lemma applyFilter_warm: "applyFilter warm_params [100, 100, 100, 255] = [100, 100, 100, 255]"
  unfolding applyFilter_def filter_loop_one_pixel
  by (simp add: applyFilter_pixel_def warm_params_def rd_real_def toUint8Clamp_def Let_def)

lemma applyFilters_warm: "applyFilters_pixels warm_filter 1 [100, 100, 100, 255] = [130, 100, 70, 255]"
  unfolding applyFilters_pixels_def filter_loop_one_pixel
  by (simp add: applyFilters_pixel_def warm_filter_def DEFAULT_FILTER_PARAMS_def with_intensity_def
      rd_real_def toUint8Clamp_def Let_def)

lemma applyFilter_contrast: "applyFilter contrast_params [192, 192, 192, 255] = [224, 224, 224, 255]"
  unfolding applyFilter_def filter_loop_one_pixel
  by (simp add: applyFilter_pixel_def contrast_params_def rd_real_def toUint8Clamp_def Let_def)

lemma applyFilters_contrast:
  "applyFilters_pixels contrast_filter 1 [192, 192, 192, 255] = [255, 255, 255, 255]"
  unfolding applyFilters_pixels_def filter_loop_one_pixel
  by (simp add: applyFilters_pixel_def contrast_filter_def DEFAULT_FILTER_PARAMS_def with_intensity_def
      rd_real_def toUint8Clamp_def Let_def power2_eq_square)

text \<open>
  C7 says that a filter effect rendered by the Render Engine uses the squared contrast
  factor and shifts red and blue by \<open>temperature * 30\<close>.  \<open>RenderEngine.applyFilter\<close> never
  reads \<open>temperature\<close> and uses the factor \<open>1 + contrast\<close>: with temperature 1 the grey pixel
  (100, 100, 100) stays as it is, where the formula of the claim, which \<open>applyFilters\<close>
  implements, gives (130, 100, 70); with contrast 0.5 the pixel (192, 192, 192) becomes 224
  per channel instead of the clamped 255.
\<close>

theorem render_engine_filter_math:
  "applyFilter warm_params [100, 100, 100, 255] = [100, 100, 100, 255] \<and>
   applyFilters_pixels warm_filter 1 [100, 100, 100, 255] = [130, 100, 70, 255] \<and>
   applyFilter contrast_params [192, 192, 192, 255] = [224, 224, 224, 255] \<and>
   applyFilters_pixels contrast_filter 1 [192, 192, 192, 255] = [255, 255, 255, 255] \<and>
   applyFilter (params\<lparr>temperature := t\<rparr>) data = applyFilter params data"
  using applyFilter_warm applyFilters_warm applyFilter_contrast applyFilters_contrast
    filter_temperature_irrelevant
  by simp

lemma foldl_skip:
  assumes "i < length xs" and "\<And>c. f c (xs ! i) = c"
  shows "foldl f c (take i xs @ drop (Suc i) xs) = foldl f c xs"
proof -
  have "foldl f c xs = foldl f c (take i xs @ xs ! i # drop (Suc i) xs)"
    using assms(1) by (simp add: id_take_nth_drop[symmetric])
  also have "\<dots> = foldl f c (take i xs @ drop (Suc i) xs)"
    using assms(2) by simp
  finally show ?thesis by simp
qed

lemma render_without_disabled:
  assumes "i < length (effects s)" and "\<not> enabled (effects s ! i)"
  shows "render ops c (without_effect s i) img amask opts = render ops c s img amask opts"
proof -
  have layer_eq: "renderLayer ops layer (without_effect s i) = renderLayer ops layer s" for layer
    by (intro ext) (simp add: renderLayer_def)
  have skip: "foldl (\<lambda>cv effect. if \<not> enabled effect then cv else applyEffect ops effect w h cv) c1
          (take i (effects s) @ drop (Suc i) (effects s)) =
        foldl (\<lambda>cv effect. if \<not> enabled effect then cv else applyEffect ops effect w h cv) c1
          (effects s)" for w h c1
    by (rule foldl_skip) (use assms in simp_all)
  have pq: "previewQuality (without_effect s i) = previewQuality s"
    and ly: "layers (without_effect s i) = layers s"
    and ef: "effects (without_effect s i) = take i (effects s) @ drop (Suc i) (effects s)"
    by (simp_all add: without_effect_def)
  show ?thesis
    unfolding render_def Let_def layer_eq pq ly ef skip ..
qed

lemma toggleEffect_nth:
  assumes "j < length (effects s)"
  shows "effects (toggleEffect s eid) ! j =
           (if effect_id (effects s ! j) = eid
            then (effects s ! j)\<lparr>enabled := \<not> enabled (effects s ! j)\<rparr> else effects s ! j)"
  using assms by (simp add: toggleEffect_def)

lemma toggleEffect_ids: "map effect_id (effects (toggleEffect s eid)) = map effect_id (effects s)"
  by (simp add: toggleEffect_def comp_def)

lemma toggleEffect_without:
  assumes i: "i < length (effects s)" and d: "distinct (map effect_id (effects s))"
  shows "without_effect (toggleEffect s (effect_id (effects s ! i))) i = without_effect s i"
proof -
  let ?eid = "effect_id (effects s ! i)"
  let ?f = "\<lambda>e. if effect_id e = ?eid then e\<lparr>enabled := \<not> enabled e\<rparr> else e"
  have other: "effect_id (effects s ! j) \<noteq> ?eid" if "j < length (effects s)" "j \<noteq> i" for j
    using that i d by (auto simp: distinct_conv_nth)
  have "map ?f (take i (effects s)) = take i (effects s)"
    by (rule map_idI) (use other i in \<open>auto simp: in_set_conv_nth\<close>)
  moreover have "map ?f (drop (Suc i) (effects s)) = drop (Suc i) (effects s)"
    by (rule map_idI) (use other i in \<open>auto simp: in_set_conv_nth\<close>)
  ultimately show ?thesis
    by (simp add: without_effect_def toggleEffect_def take_map drop_map)
qed

lemma removeEffect_without:
  assumes i: "i < length (effects s)" and d: "distinct (map effect_id (effects s))"
  shows "removeEffect s (effect_id (effects s ! i)) = without_effect s i"
proof -
  let ?eid = "effect_id (effects s ! i)"
  let ?P = "\<lambda>e. effect_id e \<noteq> ?eid"
  have other: "effect_id (effects s ! j) \<noteq> ?eid" if "j < length (effects s)" "j \<noteq> i" for j
    using that i d by (auto simp: distinct_conv_nth)
  have split: "effects s = take i (effects s) @ effects s ! i # drop (Suc i) (effects s)"
    using i by (rule id_take_nth_drop)
  have "filter ?P (take i (effects s)) = take i (effects s)"
    by (rule filter_True) (use other i in \<open>auto simp: in_set_conv_nth\<close>)
  moreover have "filter ?P (drop (Suc i) (effects s)) = drop (Suc i) (effects s)"
    by (rule filter_True) (use other i in \<open>auto simp: in_set_conv_nth\<close>)
  ultimately have "filter ?P (take i (effects s) @ effects s ! i # drop (Suc i) (effects s)) =
      take i (effects s) @ drop (Suc i) (effects s)"
    by simp
  with split have "filter ?P (effects s) = take i (effects s) @ drop (Suc i) (effects s)"
    by simp
  then show ?thesis
    by (simp add: removeEffect_def without_effect_def)
qed

text \<open>
  C8.  An effect with \<open>enabled = false\<close> is skipped by \<open>render\<close>: the output is that of the
  state without this effect (which is what \<open>removeEffect\<close> returns when ids are unique),
  for every canvas, bitmap, mask and options.  \<open>toggleEffect\<close>
  keeps the number, order and ids of the effects, flips \<open>enabled\<close> of the effects with the
  given id and changes nothing else; toggling an enabled effect with a unique id off
  therefore renders like the state without it while the effect stays in the state.
\<close>

theorem disabled_effect_is_noop:
  "(i < length (effects s) \<and> \<not> enabled (effects s ! i) \<longrightarrow>
      render ops c (without_effect s i) img amask opts = render ops c s img amask opts) \<and>
   (i < length (effects s) \<and> \<not> enabled (effects s ! i) \<and> distinct (map effect_id (effects s)) \<longrightarrow>
      render ops c (removeEffect s (effect_id (effects s ! i))) img amask opts =
        render ops c s img amask opts) \<and>
   map effect_id (effects (toggleEffect s eid)) = map effect_id (effects s) \<and>
   (\<forall>j < length (effects s).
      effects (toggleEffect s eid) ! j =
        (if effect_id (effects s ! j) = eid
         then (effects s ! j)\<lparr>enabled := \<not> enabled (effects s ! j)\<rparr> else effects s ! j)) \<and>
   toggleEffect s eid = s\<lparr>effects := effects (toggleEffect s eid)\<rparr> \<and>
   (i < length (effects s) \<and> enabled (effects s ! i) \<and> distinct (map effect_id (effects s)) \<longrightarrow>
      render ops c (toggleEffect s (effect_id (effects s ! i))) img amask opts =
        render ops c (without_effect s i) img amask opts \<and>
      effects (toggleEffect s (effect_id (effects s ! i))) ! i = (effects s ! i)\<lparr>enabled := False\<rparr>)"
proof (intro conjI impI allI)
  show "render ops c (without_effect s i) img amask opts = render ops c s img amask opts"
    if "i < length (effects s) \<and> \<not> enabled (effects s ! i)"
    using that by (intro render_without_disabled) simp_all
  show "render ops c (removeEffect s (effect_id (effects s ! i))) img amask opts =
        render ops c s img amask opts"
    if "i < length (effects s) \<and> \<not> enabled (effects s ! i) \<and> distinct (map effect_id (effects s))"
    using that removeEffect_without[of i s] render_without_disabled[of i s ops c img amask opts]
    by simp
  show "map effect_id (effects (toggleEffect s eid)) = map effect_id (effects s)"
    by (rule toggleEffect_ids)
  show "effects (toggleEffect s eid) ! j =
        (if effect_id (effects s ! j) = eid
         then (effects s ! j)\<lparr>enabled := \<not> enabled (effects s ! j)\<rparr> else effects s ! j)"
    if "j < length (effects s)" for j
    using that by (rule toggleEffect_nth)
  show "toggleEffect s eid = s\<lparr>effects := effects (toggleEffect s eid)\<rparr>"
    by (simp add: toggleEffect_def)
next
  assume a: "i < length (effects s) \<and> enabled (effects s ! i) \<and> distinct (map effect_id (effects s))"
  let ?s' = "toggleEffect s (effect_id (effects s ! i))"
  have len: "i < length (effects ?s')"
    using a by (simp add: toggleEffect_def)
  have off: "effects ?s' ! i = (effects s ! i)\<lparr>enabled := False\<rparr>"
    using a toggleEffect_nth[of i s "effect_id (effects s ! i)"] by simp
  then have "\<not> enabled (effects ?s' ! i)" by simp
  from render_without_disabled[OF len this, of ops c img amask opts]
  have "render ops c ?s' img amask opts = render ops c (without_effect ?s' i) img amask opts"
    by simp
  also have "without_effect ?s' i = without_effect s i"
    using a by (intro toggleEffect_without) simp_all
  finally show "render ops c ?s' img amask opts = render ops c (without_effect s i) img amask opts" .
  show "effects ?s' ! i = (effects s ! i)\<lparr>enabled := False\<rparr>" by (rule off)
qed

theorem disabled_effect_is_noop_witness:
  "\<not> enabled (effects state_fx ! 1) \<and>
   render log_ops [] (without_effect state_fx 1) photo None png_preview =
     render log_ops [] state_fx photo None png_preview \<and>
   render log_ops [] (removeEffect state_fx ''fx2'') photo None png_preview =
     render log_ops [] state_fx photo None png_preview \<and>
   render log_ops [] state_fx photo None png_preview = [''background'', ''subject'', ''blur''] \<and>
   enabled (effects state_fx ! 0) \<and>
   distinct (map effect_id (effects state_fx)) \<and>
   render log_ops [] (toggleEffect state_fx ''fx1'') photo None png_preview =
     [''background'', ''subject''] \<and>
   effects (toggleEffect state_fx ''fx1'') = [fx1\<lparr>enabled := False\<rparr>, fx2]"
proof -
  have e: "effects state_fx = [fx1, fx2]" by (simp add: state_fx_def)
  have f: "effect_id fx1 = ''fx1''" "effect_id fx2 = ''fx2''" "enabled fx1" "\<not> enabled fx2"
    "effect_type fx1 = blur_effect"
    by (simp_all add: fx1_def fx2_def)
  have 1: "render log_ops [] (without_effect state_fx 1) photo None png_preview =
     render log_ops [] state_fx photo None png_preview"
    using disabled_effect_is_noop[of 1 state_fx log_ops "[]" photo None png_preview "''fx1''"] e f
    by simp
  have rm: "render log_ops [] (removeEffect state_fx ''fx2'') photo None png_preview =
     render log_ops [] state_fx photo None png_preview"
    using disabled_effect_is_noop[of 1 state_fx log_ops "[]" photo None png_preview "''fx1''"] e f
    by simp
  have 2: "render log_ops [] (toggleEffect state_fx ''fx1'') photo None png_preview =
        render log_ops [] (without_effect state_fx 0) photo None png_preview"
    using disabled_effect_is_noop[of 0 state_fx log_ops "[]" photo None png_preview "''fx1''"] e f
    by simp
  have radius: "Math_round (num_field (effect_params fx1) ''radius'' * 100) = 3"
    by (simp add: Math_round_def num_field_def fx1_def)
  have 3: "render log_ops [] state_fx photo None png_preview = [''background'', ''subject'', ''blur'']"
    by (simp add: render_def Let_def e f state_fx_def state0_def createDefaultEditorState_def
        renderLayer_def applyEffect_def applyBlur_def log_ops_def photo_def png_preview_def
        Math_round_def num_field_def fx1_def)
  have 4: "render log_ops [] (without_effect state_fx 0) photo None png_preview = [''background'', ''subject'']"
    by (simp add: render_def Let_def without_effect_def e f state_fx_def state0_def
        createDefaultEditorState_def renderLayer_def log_ops_def photo_def png_preview_def
        Math_round_def)
  have 5: "effects (toggleEffect state_fx ''fx1'') = [fx1\<lparr>enabled := False\<rparr>, fx2]"
    by (simp add: toggleEffect_def e f)
  from 1 rm 2 3 4 5 e f show ?thesis by simp
qed

end
